theory Spec2Isabelle
  imports Complex_Main "HOL-Library.Word" "HOL-Library.Monad_Syntax"
begin

section \<open>The buffering audio source of juce\_audio\_basics\<close>

text \<open>
  A shallow embedding of \<^verbatim>\<open>juce_BufferingAudioSource.cpp\<close>: a look-ahead cache that a
  background thread refills (\<^verbatim>\<open>readNextBufferChunk\<close>) and the audio callback reads
  (\<^verbatim>\<open>getNextAudioBlock\<close>).

  Integers. \<^verbatim>\<open>int64\<close> positions and \<^verbatim>\<open>int\<close> sizes are values of \<^typ>\<open>int\<close>, and the
  arithmetic that computes a position or a size is wrapped to its type: \<open>to_int64\<close>
  where the code adds or subtracts \<^verbatim>\<open>int64\<close> values (lines 157, 228, 246, 254, 262-265),
  \<open>to_int32\<close> where it computes an \<^verbatim>\<open>int\<close> (line 52) and for every cast \<^verbatim>\<open>(int)\<close>. C++
  leaves signed overflow undefined; the wrapped value is the one two's complement
  hardware gives. \<^verbatim>\<open>%\<close> is the truncating remainder \<open>c_rem\<close>, \<^verbatim>\<open>/\<close> the truncating quotient
  \<open>c_div\<close>. The segments of the two copy loops (\<open>read_segments\<close>, \<open>refill_segments\<close>)
  are computed on \<^typ>\<open>int\<close> as written; they agree with the code for the positions
  that an \<^verbatim>\<open>int64\<close> holds. The millisecond counter is an unsigned 32-bit word.

  Failure. \<^verbatim>\<open>jassert\<close> reports a failed assertion in a debug build and goes on, so an
  assertion is no branch of the model. What fails is an access outside an audio buffer
  and a remainder by zero: these are the value \<open>None\<close>.

  Threads. Every function is a function from the state before the call to the state after
  it; the locks are not modelled. \<^verbatim>\<open>readNextBufferChunk\<close> releases the lock of the valid range
  between its first and its last block, so these blocks are functions of their own
  (\<open>plan_refill\<close>, \<open>commit_range\<close>) and the states between them are states of the model.
  \<^verbatim>\<open>prepareToPlay\<close> waits for the background thread; the time slices that the thread
  runs meanwhile are an argument of the model of the call.

  Samples are of any type with a zero (the code only clears and copies them).
\<close>

subsection \<open>C++ arithmetic and the JUCE helpers\<close>

text \<open>
  Modelled from the spec: \<^verbatim>\<open>jmax\<close>, \<^verbatim>\<open>jmin\<close> and \<^verbatim>\<open>jlimit\<close> (juce\_MathsFunctions.h) are not
  under src/. They are the larger and the smaller of two values ("max", "min"), and a
  value "clamped" to a lower and an upper limit.
\<close>

definition jmax :: "int \<Rightarrow> int \<Rightarrow> int" where
  "jmax a b = (if a < b then b else a)"

definition jmin :: "int \<Rightarrow> int \<Rightarrow> int" where
  "jmin a b = (if b < a then b else a)"

text \<open>\<^verbatim>\<open>jlimit (lowerLimit, upperLimit, valueToConstrain)\<close>.\<close>

definition jlimit :: "int \<Rightarrow> int \<Rightarrow> int \<Rightarrow> int" where
  "jlimit lowerLimit upperLimit v =
     (if v < lowerLimit then lowerLimit else if upperLimit < v then upperLimit else v)"

text \<open>The cast \<^verbatim>\<open>(int) x\<close> of a 64-bit value: the low 32 bits, read as two's complement.\<close>

definition to_int32 :: "int \<Rightarrow> int" where
  "to_int32 x = (x + 2 ^ 31) mod 2 ^ 32 - 2 ^ 31"

text \<open>The sum or difference of two \<^verbatim>\<open>int64\<close> values: the low 64 bits, read as two's complement.\<close>

definition to_int64 :: "int \<Rightarrow> int" where
  "to_int64 x = (x + 2 ^ 63) mod 2 ^ 64 - 2 ^ 63"

text \<open>The C++ remainder \<^verbatim>\<open>a % b\<close>: it truncates towards zero, so it has the sign of \<open>a\<close>.\<close>

definition c_rem :: "int \<Rightarrow> int \<Rightarrow> int" where
  "c_rem a b = sgn a * (\<bar>a\<bar> mod \<bar>b\<bar>)"

text \<open>The C++ quotient \<^verbatim>\<open>a / b\<close> of two \<^verbatim>\<open>int\<close> values: it truncates towards zero.\<close>

definition c_div :: "int \<Rightarrow> int \<Rightarrow> int" where
  "c_div a b = sgn a * sgn b * (\<bar>a\<bar> div \<bar>b\<bar>)"

text \<open>\<^verbatim>\<open>std::abs\<close> of an \<^verbatim>\<open>int\<close>.\<close>

definition c_abs :: "int \<Rightarrow> int" where
  "c_abs x = to_int32 \<bar>x\<bar>"

text \<open>
  The cast \<^verbatim>\<open>(int) d\<close> of a \<^verbatim>\<open>double\<close>: it truncates towards zero. A value outside the
  range of \<^verbatim>\<open>int\<close> is undefined in C++; it is wrapped here.
\<close>

definition double_to_int :: "real \<Rightarrow> int" where
  "double_to_int d = to_int32 (if 0 \<le> d then \<lfloor>d\<rfloor> else \<lceil>d\<rceil>)"

text \<open>
  Modelled from the spec: the class template \<^verbatim>\<open>Range\<close> (juce\_Range.h) is not under src/.
  A range is a pair of a start and an end; its constructor never lets the end lie before
  the start, and it is empty when the two are equal ("the intersection is empty").
\<close>

type_synonym Range = "int \<times> int"

definition Range_new :: "int \<Rightarrow> int \<Rightarrow> Range" where
  "Range_new startValue endValue = (startValue, jmax startValue endValue)"

definition getStart :: "Range \<Rightarrow> int" where
  "getStart r = fst r"

definition getEnd :: "Range \<Rightarrow> int" where
  "getEnd r = snd r"

definition isEmpty :: "Range \<Rightarrow> bool" where
  "isEmpty r \<longleftrightarrow> fst r = snd r"

subsection \<open>The millisecond counter of the preroll wait\<close>

text \<open>
  \<^verbatim>\<open>waitForNextAudioBlockReady\<close>, lines 172-173 and 196-197:
  \<^verbatim>\<open>now >= startTime ? now - startTime : (std::numeric_limits<uint32>::max() - startTime) + now\<close>.
\<close>

definition elapsed :: "32 word \<Rightarrow> 32 word \<Rightarrow> 32 word" where
  "elapsed startTime now =
     (if now \<ge> startTime then now - startTime else (0xFFFFFFFF - startTime) + now)"

subsection \<open>Audio buffers\<close>

text \<open>
  Modelled from the spec: the class \<^verbatim>\<open>AudioBuffer\<close> (juce\_AudioSampleBuffer.h) is not
  under src/. A buffer has a number of channels, a number of samples per channel and the
  samples themselves, a store from channel and index to sample. "Clear" writes zeros to a
  range of indices on every channel; a copy moves a range of one channel of another buffer
  to a range of one channel of this one. Both assert that the ranges lie inside the
  buffers, and a range outside is the failure \<open>None\<close>.
\<close>

record 'a AudioBuffer =
  getNumChannels :: nat
  getNumSamples :: int
  channelData :: "nat \<Rightarrow> int \<Rightarrow> 'a"

definition AudioBuffer_setSize :: "'a AudioBuffer \<Rightarrow> nat \<Rightarrow> int \<Rightarrow> 'a AudioBuffer" where
  "AudioBuffer_setSize b newNumChannels newNumSamples =
     b\<lparr>getNumChannels := newNumChannels, getNumSamples := newNumSamples\<rparr>"

definition AudioBuffer_clearAll :: "'a::zero AudioBuffer \<Rightarrow> 'a AudioBuffer" where
  "AudioBuffer_clearAll b = b\<lparr>channelData := (\<lambda>c i. 0)\<rparr>"

definition AudioBuffer_clear :: "'a::zero AudioBuffer \<Rightarrow> int \<Rightarrow> int \<Rightarrow> 'a AudioBuffer option" where
  "AudioBuffer_clear b start num =
     (if 0 \<le> start \<and> 0 \<le> num \<and> start + num \<le> getNumSamples b
      then Some (b\<lparr>channelData :=
             (\<lambda>c i. if c < getNumChannels b \<and> start \<le> i \<and> i < start + num
                    then 0 else channelData b c i)\<rparr>)
      else None)"

definition copyFrom ::
  "'a AudioBuffer \<Rightarrow> nat \<Rightarrow> int \<Rightarrow> 'a AudioBuffer \<Rightarrow> nat \<Rightarrow> int \<Rightarrow> int \<Rightarrow> 'a AudioBuffer option" where
  "copyFrom dest destChannel destStartSample src sourceChannel sourceStartSample num =
     (if destChannel < getNumChannels dest
         \<and> 0 \<le> destStartSample \<and> 0 \<le> num \<and> destStartSample + num \<le> getNumSamples dest
         \<and> sourceChannel < getNumChannels src
         \<and> 0 \<le> sourceStartSample \<and> sourceStartSample + num \<le> getNumSamples src
      then Some (dest\<lparr>channelData :=
             (\<lambda>c i. if c = destChannel \<and> destStartSample \<le> i \<and> i < destStartSample + num
                    then channelData src sourceChannel (sourceStartSample + (i - destStartSample))
                    else channelData dest c i)\<rparr>)
      else None)"

text \<open>
  Modelled from the spec: the struct \<^verbatim>\<open>AudioSourceChannelInfo\<close> (juce\_AudioSource.h) is not
  under src/. It names the destination buffer of a block request, the first index to
  write and the number of samples requested; "clear the entire destination range" clears
  that range of the buffer.
\<close>

record 'a AudioSourceChannelInfo =
  info_buffer :: "'a AudioBuffer"
  startSample :: int
  numSamples :: int

definition info_clear :: "'a::zero AudioSourceChannelInfo \<Rightarrow> int \<Rightarrow> int \<Rightarrow> 'a AudioSourceChannelInfo option" where
  "info_clear info start num =
     map_option (\<lambda>b. info\<lparr>info_buffer := b\<rparr>) (AudioBuffer_clear (info_buffer info) start num)"

definition clearActiveBufferRegion :: "'a::zero AudioSourceChannelInfo \<Rightarrow> 'a AudioSourceChannelInfo option" where
  "clearActiveBufferRegion info = info_clear info (startSample info) (numSamples info)"

subsection \<open>The wrapped source\<close>

text \<open>
  Modelled from the spec: the interface \<^verbatim>\<open>PositionableAudioSource\<close> is not under src/.
  The Source is "a seekable, sequential producer of fixed-channel-count sample blocks":
  \<open>sourceData c p\<close> is the sample it produces on channel \<open>c\<close> at absolute position \<open>p\<close>;
  a read writes the samples from its current position on into the destination range and
  "advances its own internal position"; a seek sets the position.
\<close>

record 'a PositionableAudioSource =
  sourceData :: "nat \<Rightarrow> int \<Rightarrow> 'a"
  sourcePosition :: int
  sourceLooping :: bool
  sourceTotalLength :: int

definition source_setNextReadPosition :: "'a PositionableAudioSource \<Rightarrow> int \<Rightarrow> 'a PositionableAudioSource" where
  "source_setNextReadPosition s newPosition = s\<lparr>sourcePosition := newPosition\<rparr>"

definition source_getNextAudioBlock ::
  "'a PositionableAudioSource \<Rightarrow> 'a AudioBuffer \<Rightarrow> int \<Rightarrow> int
     \<Rightarrow> ('a PositionableAudioSource \<times> 'a AudioBuffer) option" where
  "source_getNextAudioBlock s b start num =
     (if 0 \<le> start \<and> 0 \<le> num \<and> start + num \<le> getNumSamples b
      then Some (s\<lparr>sourcePosition := sourcePosition s + num\<rparr>,
                 b\<lparr>channelData :=
                     (\<lambda>c i. if c < getNumChannels b \<and> start \<le> i \<and> i < start + num
                            then sourceData s c (sourcePosition s + (i - start))
                            else channelData b c i)\<rparr>)
      else None)"

subsection \<open>The state of a BufferingAudioSource\<close>

text \<open>
  Modelled from the spec: the class declaration (juce\_BufferingAudioSource.h) is not under
  src/. The members are those that the functions under src/ use. The cache and the cursor
  are "created/sized when the component is configured": before that the valid range is
  empty, the cursor is 0, there is no storage and the object is not prepared. The looping
  flag of the object is the one that the Source reports (\<open>isLooping\<close>).

  \<open>isTimeSliceClient\<close> is the membership of this object in the client list of
  \<^verbatim>\<open>backgroundThread\<close> (\<^verbatim>\<open>addTimeSliceClient\<close>, \<^verbatim>\<open>removeTimeSliceClient\<close>): the thread calls
  \<^verbatim>\<open>useTimeSlice\<close> of its clients only. The sample rate is a \<^verbatim>\<open>double\<close>, modelled as a real
  number: the code stores it, compares it and casts it to \<^verbatim>\<open>int\<close>.
\<close>

record 'a BufferingAudioSource =
  source :: "'a PositionableAudioSource"
  numberOfSamplesToBuffer :: int
  numberOfChannels :: nat
  prefillBuffer :: bool
  buffer :: "'a AudioBuffer"
  bufferValidStart :: int
  bufferValidEnd :: int
  nextPlayPos :: int
  sampleRate :: real
  wasSourceLooping :: bool
  isPrepared :: bool
  isTimeSliceClient :: bool

text \<open>
  The constructor, lines 26-42. The members that it does not name start as said above.
  The assertion of line 40 (\<open>constructor_asserts\<close>) does not stop it: for a size of at
  most 1024 samples the object exists, with a minimum of 1024 samples.
\<close>

definition BufferingAudioSource_new ::
  "'a::zero PositionableAudioSource \<Rightarrow> int \<Rightarrow> nat \<Rightarrow> bool \<Rightarrow> 'a BufferingAudioSource" where
  "BufferingAudioSource_new s bufferSizeSamples numChannels prefillBufferOnPrepareToPlay =
     \<lparr>source = s,
      numberOfSamplesToBuffer = jmax 1024 bufferSizeSamples,
      numberOfChannels = numChannels,
      prefillBuffer = prefillBufferOnPrepareToPlay,
      buffer = \<lparr>getNumChannels = 0, getNumSamples = 0, channelData = (\<lambda>c i. 0)\<rparr>,
      bufferValidStart = 0,
      bufferValidEnd = 0,
      nextPlayPos = 0,
      sampleRate = 0,
      wasSourceLooping = False,
      isPrepared = False,
      isTimeSliceClient = False\<rparr>"

definition constructor_asserts :: "'a BufferingAudioSource \<Rightarrow> bool" where
  "constructor_asserts st \<longleftrightarrow> numberOfSamplesToBuffer st > 1024"

definition isLooping :: "'a BufferingAudioSource \<Rightarrow> bool" where
  "isLooping st = sourceLooping (source st)"

subsection \<open>Configuration\<close>

text \<open>
  \<^verbatim>\<open>releaseResources\<close>, lines 87-99, and \<^verbatim>\<open>setNextReadPosition\<close>, lines 213-219.
  \<^verbatim>\<open>prepareToPlay\<close> waits for the refill and follows it below. The calls that prepare and
  release the wrapped source change nothing of this model.
\<close>

definition releaseResources :: "'a BufferingAudioSource \<Rightarrow> 'a BufferingAudioSource" where
  "releaseResources st =
     st\<lparr>isPrepared := False,
        isTimeSliceClient := False,
        buffer := AudioBuffer_setSize (buffer st) (numberOfChannels st) 0\<rparr>"

definition setNextReadPosition :: "'a BufferingAudioSource \<Rightarrow> int \<Rightarrow> 'a BufferingAudioSource" where
  "setNextReadPosition st newPosition = st\<lparr>nextPlayPos := newPosition\<rparr>"

subsection \<open>The read path\<close>

text \<open>\<^verbatim>\<open>getValidBufferRange\<close>, lines 221-229.\<close>

definition getValidBufferRange :: "'a BufferingAudioSource \<Rightarrow> int \<Rightarrow> Range" where
  "getValidBufferRange st n =
     (let pos = nextPlayPos st in
      Range_new
        (to_int32 (to_int64 (jlimit (bufferValidStart st) (bufferValidEnd st) pos - pos)))
        (to_int32 (to_int64
           (jlimit (bufferValidStart st) (bufferValidEnd st) (to_int64 (pos + n)) - pos))))"

text \<open>
  The body of the channel loop of \<^verbatim>\<open>getNextAudioBlock\<close>, lines 130-153, as the list of the
  copies it issues: each is the offset in the destination block, the index in the cache
  and the number of samples of one \<^verbatim>\<open>copyFrom\<close>.
\<close>

definition read_segments :: "int \<Rightarrow> int \<Rightarrow> int \<Rightarrow> int \<Rightarrow> (int \<times> int \<times> int) list" where
  "read_segments bufferSize pos validStart validEnd =
     (let startBufferIndex = to_int32 (c_rem (validStart + pos) bufferSize);
          endBufferIndex = to_int32 (c_rem (validEnd + pos) bufferSize)
      in if startBufferIndex < endBufferIndex
         then [(validStart, startBufferIndex, validEnd - validStart)]
         else (let initialSize = bufferSize - startBufferIndex
               in [(validStart, startBufferIndex, initialSize),
                   (validStart + initialSize, 0, (validEnd - validStart) - initialSize)]))"

fun copy_segments ::
  "'a AudioBuffer \<Rightarrow> nat \<Rightarrow> (int \<times> int \<times> int) list \<Rightarrow> 'a AudioSourceChannelInfo
     \<Rightarrow> 'a AudioSourceChannelInfo option" where
  "copy_segments cache chan [] info = Some info"
| "copy_segments cache chan ((destOffset, sourceStart, num) # segs) info =
     (case copyFrom (info_buffer info) chan (startSample info + destOffset) cache chan sourceStart num of
        None \<Rightarrow> None
      | Some b \<Rightarrow> copy_segments cache chan segs (info\<lparr>info_buffer := b\<rparr>))"

text \<open>
  The channel loop, lines 126-154: \<open>copy_channels st validStart validEnd k info\<close> runs the
  body for the channels \<open>k - 1\<close> down to \<open>0\<close>. Without storage the remainder of lines
  130-131 is one by zero (the assertion of line 128).
\<close>

fun copy_channels ::
  "'a BufferingAudioSource \<Rightarrow> int \<Rightarrow> int \<Rightarrow> nat \<Rightarrow> 'a AudioSourceChannelInfo
     \<Rightarrow> 'a AudioSourceChannelInfo option" where
  "copy_channels st validStart validEnd 0 info = Some info"
| "copy_channels st validStart validEnd (Suc chan) info =
     (if getNumSamples (buffer st) > 0
      then (case copy_segments (buffer st) chan
                   (read_segments (getNumSamples (buffer st)) (nextPlayPos st) validStart validEnd) info of
              None \<Rightarrow> None
            | Some info' \<Rightarrow> copy_channels st validStart validEnd chan info')
      else None)"

text \<open>
  \<^verbatim>\<open>getNextAudioBlock\<close>, lines 101-158: the new state and the destination as written, or
  \<open>None\<close> when a clear or a copy leaves a buffer. The increment of line 157 is the one
  of an atomic \<^verbatim>\<open>int64\<close>, which wraps.
\<close>

definition getNextAudioBlock ::
  "'a::zero BufferingAudioSource \<Rightarrow> 'a AudioSourceChannelInfo
     \<Rightarrow> ('a BufferingAudioSource \<times> 'a AudioSourceChannelInfo) option" where
  "getNextAudioBlock st info =
     (let bufferRange = getValidBufferRange st (numSamples info) in
      if isEmpty bufferRange
      then map_option (\<lambda>info'. (st, info')) (clearActiveBufferRegion info)
      else
        (let validStart = getStart bufferRange;
             validEnd = getEnd bufferRange
         in do {
              info1 \<leftarrow> (if validStart > 0
                        then info_clear info (startSample info) validStart
                        else Some info);
              info2 \<leftarrow> (if validEnd < numSamples info
                        then info_clear info1 (to_int32 (startSample info + validEnd))
                               (to_int32 (numSamples info - validEnd))
                        else Some info1);
              info3 \<leftarrow> (if validStart < validEnd
                        then copy_channels st validStart validEnd
                               (min (numberOfChannels st) (getNumChannels (info_buffer info))) info2
                        else Some info2);
              Some (st\<lparr>nextPlayPos := to_int64 (nextPlayPos st + numSamples info)\<rparr>, info3)
            }))"

subsection \<open>The refill\<close>

text \<open>What the first locked block of \<^verbatim>\<open>readNextBufferChunk\<close> hands to the rest of it.\<close>

record refill_plan =
  newBVS :: int
  newBVE :: int
  sectionToReadStart :: int
  sectionToReadEnd :: int

definition maxChunkSize :: int where
  "maxChunkSize = 2048"

text \<open>Lines 238-243: the cache is dropped when the looping flag of the source changed.\<close>

definition loop_check :: "'a BufferingAudioSource \<Rightarrow> 'a BufferingAudioSource" where
  "loop_check st =
     (if wasSourceLooping st \<noteq> isLooping st
      then st\<lparr>wasSourceLooping := isLooping st, bufferValidStart := 0, bufferValidEnd := 0\<rparr>
      else st)"

text \<open>Lines 245-272: the window wanted, the section to read and the range kept.\<close>

definition choose_section :: "'a BufferingAudioSource \<Rightarrow> 'a BufferingAudioSource \<times> refill_plan" where
  "choose_section st =
     (let bvs = jmax 0 (nextPlayPos st);
          bve = to_int64 (to_int64 (bvs + getNumSamples (buffer st)) - 4)
      in if bvs < bufferValidStart st \<or> bvs \<ge> bufferValidEnd st
         then (let bve' = jmin bve (to_int64 (bvs + maxChunkSize))
               in (st\<lparr>bufferValidStart := 0, bufferValidEnd := 0\<rparr>,
                   \<lparr>newBVS = bvs, newBVE = bve',
                    sectionToReadStart = bvs, sectionToReadEnd = bve'\<rparr>))
         else if c_abs (to_int32 (to_int64 (bvs - bufferValidStart st))) > 512
                 \<or> c_abs (to_int32 (to_int64 (bve - bufferValidEnd st))) > 512
         then (let bve' = jmin bve (to_int64 (bufferValidEnd st + maxChunkSize))
               in (st\<lparr>bufferValidStart := bvs,
                      bufferValidEnd := jmin (bufferValidEnd st) bve'\<rparr>,
                   \<lparr>newBVS = bvs, newBVE = bve',
                    sectionToReadStart = bufferValidEnd st, sectionToReadEnd = bve'\<rparr>))
         else (st, \<lparr>newBVS = bvs, newBVE = bve,
                    sectionToReadStart = 0, sectionToReadEnd = 0\<rparr>))"

text \<open>The first locked block, lines 235-273.\<close>

definition plan_refill :: "'a BufferingAudioSource \<Rightarrow> 'a BufferingAudioSource \<times> refill_plan" where
  "plan_refill st = choose_section (loop_check st)"

text \<open>
  Lines 280-300, as the list of the calls of \<^verbatim>\<open>readBufferSection\<close> issued: each is the
  start position in the source, the length and the index in the cache.
\<close>

definition refill_segments :: "int \<Rightarrow> int \<Rightarrow> int \<Rightarrow> (int \<times> int \<times> int) list" where
  "refill_segments bufferSize sectionStart sectionEnd =
     (let bufferIndexStart = to_int32 (c_rem sectionStart bufferSize);
          bufferIndexEnd = to_int32 (c_rem sectionEnd bufferSize)
      in if bufferIndexStart < bufferIndexEnd
         then [(sectionStart, to_int32 (sectionEnd - sectionStart), bufferIndexStart)]
         else (let initialSize = bufferSize - bufferIndexStart
               in [(sectionStart, initialSize, bufferIndexStart),
                   (sectionStart + initialSize,
                    to_int32 (sectionEnd - sectionStart) - initialSize, 0)]))"

text \<open>\<^verbatim>\<open>readBufferSection\<close>, lines 313-322.\<close>

definition readBufferSection ::
  "'a BufferingAudioSource \<Rightarrow> int \<Rightarrow> int \<Rightarrow> int \<Rightarrow> 'a BufferingAudioSource option" where
  "readBufferSection st start len bufferOffset =
     (let s = (if sourcePosition (source st) \<noteq> start
               then source_setNextReadPosition (source st) start
               else source st)
      in map_option (\<lambda>(s', b'). st\<lparr>source := s', buffer := b'\<rparr>)
           (source_getNextAudioBlock s (buffer st) bufferOffset len))"

fun readBufferSections ::
  "'a BufferingAudioSource \<Rightarrow> (int \<times> int \<times> int) list \<Rightarrow> 'a BufferingAudioSource option" where
  "readBufferSections st [] = Some st"
| "readBufferSections st ((start, len, bufferOffset) # rest) =
     (case readBufferSection st start len bufferOffset of
        None \<Rightarrow> None
      | Some st' \<Rightarrow> readBufferSections st' rest)"

text \<open>The last locked block, lines 302-307.\<close>

definition commit_range :: "'a BufferingAudioSource \<Rightarrow> refill_plan \<Rightarrow> 'a BufferingAudioSource" where
  "commit_range st p = st\<lparr>bufferValidStart := newBVS p, bufferValidEnd := newBVE p\<rparr>"

text \<open>
  \<^verbatim>\<open>readNextBufferChunk\<close>, lines 231-311: whether a chunk was read, and the new state.
  Without storage the remainder of lines 280-281 is one by zero (the assertion of line
  278).
\<close>

definition readNextBufferChunk ::
  "'a BufferingAudioSource \<Rightarrow> (bool \<times> 'a BufferingAudioSource) option" where
  "readNextBufferChunk st =
     (let (st1, p) = plan_refill st in
      if sectionToReadStart p = sectionToReadEnd p
      then Some (False, st1)
      else if getNumSamples (buffer st1) > 0
      then map_option (\<lambda>st2. (True, commit_range st2 p))
             (readBufferSections st1
                (refill_segments (getNumSamples (buffer st1))
                   (sectionToReadStart p) (sectionToReadEnd p)))
      else None)"

text \<open>\<^verbatim>\<open>useTimeSlice\<close>, lines 324-327.\<close>

definition useTimeSlice :: "'a BufferingAudioSource \<Rightarrow> (int \<times> 'a BufferingAudioSource) option" where
  "useTimeSlice st = map_option (\<lambda>(didWork, st'). (if didWork then 1 else 100, st')) (readNextBufferChunk st)"

subsection \<open>Configuration, with the wait for the refill\<close>

text \<open>
  \<^verbatim>\<open>prepareToPlay\<close>, lines 50-85. Lines 58-73 (\<open>prepare_reset\<close>) size and clear the cache,
  empty the valid range and register the object with the background thread. The loop of
  lines 75-83 then sleeps, at least once, while that thread runs \<^verbatim>\<open>useTimeSlice\<close>;
  \<open>run_slices k\<close> is what \<open>k\<close> time slices do to the state. How many time slices the
  thread gets during each sleep is not in this code: it is the argument \<open>slices\<close>, one
  number for each sleep. The call has not returned, the value \<open>None\<close>, when the loop has not
  ended after the sleeps of the list, or when a time slice fails.
\<close>

fun run_slices :: "nat \<Rightarrow> 'a BufferingAudioSource \<Rightarrow> 'a BufferingAudioSource option" where
  "run_slices 0 st = Some st"
| "run_slices (Suc k) st =
     (case useTimeSlice st of
        None \<Rightarrow> None
      | Some r \<Rightarrow> run_slices k (snd r))"

fun prefill_wait ::
  "real \<Rightarrow> nat list \<Rightarrow> 'a BufferingAudioSource \<Rightarrow> 'a BufferingAudioSource option" where
  "prefill_wait newSampleRate [] st = None"
| "prefill_wait newSampleRate (k # slices) st =
     (case run_slices k st of
        None \<Rightarrow> None
      | Some st' \<Rightarrow>
          if prefillBuffer st'
             \<and> to_int64 (bufferValidEnd st' - bufferValidStart st')
                 < jmin (c_div (double_to_int newSampleRate) 4) (c_div (getNumSamples (buffer st')) 2)
          then prefill_wait newSampleRate slices st'
          else Some st')"

definition prepare_reset :: "'a::zero BufferingAudioSource \<Rightarrow> int \<Rightarrow> real \<Rightarrow> 'a BufferingAudioSource" where
  "prepare_reset st bufferSizeNeeded newSampleRate =
     st\<lparr>isPrepared := True,
        sampleRate := newSampleRate,
        buffer := AudioBuffer_clearAll
                    (AudioBuffer_setSize (buffer st) (numberOfChannels st) bufferSizeNeeded),
        bufferValidStart := 0,
        bufferValidEnd := 0,
        isTimeSliceClient := True\<rparr>"

definition prepareToPlay ::
  "'a::zero BufferingAudioSource \<Rightarrow> int \<Rightarrow> real \<Rightarrow> nat list \<Rightarrow> 'a BufferingAudioSource option" where
  "prepareToPlay st samplesPerBlockExpected newSampleRate slices =
     (let bufferSizeNeeded = jmax (to_int32 (samplesPerBlockExpected * 2)) (numberOfSamplesToBuffer st) in
      if newSampleRate \<noteq> sampleRate st
         \<or> bufferSizeNeeded \<noteq> getNumSamples (buffer st)
         \<or> \<not> isPrepared st
      then prefill_wait newSampleRate slices (prepare_reset st bufferSizeNeeded newSampleRate)
      else Some st)"


subsection \<open>The wraparound mapping, as the spec states it\<close>

text \<open>
  Both paths map a range of absolute positions to one or two segments of the cache. These
  are the segments of each path as pairs of a physical offset and a length.
\<close>

definition refill_physical :: "int \<Rightarrow> int \<Rightarrow> int \<Rightarrow> (int \<times> int) list" where
  "refill_physical bufferSize sectionStart sectionEnd =
     map (\<lambda>(start, len, bufferOffset). (bufferOffset, len))
       (refill_segments bufferSize sectionStart sectionEnd)"

definition read_physical :: "int \<Rightarrow> int \<Rightarrow> int \<Rightarrow> int \<Rightarrow> (int \<times> int) list" where
  "read_physical bufferSize pos validStart validEnd =
     map (\<lambda>(destOffset, sourceStart, num). (sourceStart, num))
       (read_segments bufferSize pos validStart validEnd)"

text \<open>The physical indices a segment touches.\<close>

definition segment_indices :: "int \<times> int \<Rightarrow> int set" where
  "segment_indices seg = {fst seg ..< fst seg + snd seg}"

fun disjoint_segments :: "(int \<times> int) list \<Rightarrow> bool" where
  "disjoint_segments [] = True"
| "disjoint_segments (seg # segs) =
     ((\<forall>seg' \<in> set segs. segment_indices seg \<inter> segment_indices seg' = {})
      \<and> disjoint_segments segs)"

text \<open>
  The range of \<open>len\<close> positions from \<open>s\<close> crosses the physical end of a buffer of
  \<open>capacity\<close> samples when it starts before the end and goes on after it.
\<close>

definition crosses_end :: "int \<Rightarrow> int \<Rightarrow> int \<Rightarrow> bool" where
  "crosses_end capacity s len \<longleftrightarrow> capacity < s mod capacity + len"

text \<open>
  The contract of the spec for the segments of such a range: one segment when the range
  does not cross the physical end and two when it does, lengths that sum to the request,
  no index outside the buffer, no overlap.
\<close>

definition wrap_ok :: "int \<Rightarrow> int \<Rightarrow> int \<Rightarrow> (int \<times> int) list \<Rightarrow> bool" where
  "wrap_ok capacity s len segs \<longleftrightarrow>
     length segs = (if crosses_end capacity s len then 2 else 1)
     \<and> sum_list (map snd segs) = len
     \<and> (\<forall>seg \<in> set segs. 0 \<le> snd seg \<and> segment_indices seg \<subseteq> {0 ..< capacity})
     \<and> disjoint_segments segs"

subsection \<open>Well-formed states and requests\<close>

text \<open>
  What the read path relies on: the cache has storage for the channels of the source,
  and its valid range starts at a position that is not negative and is no longer than the
  storage. A request is well-formed when its block lies inside its destination buffer.
  Sizes are \<^verbatim>\<open>int\<close> values, below \<open>2^31\<close>, and positions \<^verbatim>\<open>int64\<close> values, below \<open>2^63\<close>.
\<close>

definition cache_ok :: "'a BufferingAudioSource \<Rightarrow> bool" where
  "cache_ok st \<longleftrightarrow>
     0 < getNumSamples (buffer st) \<and> getNumSamples (buffer st) < 2 ^ 31
     \<and> numberOfChannels st \<le> getNumChannels (buffer st)
     \<and> 0 \<le> bufferValidStart st \<and> bufferValidStart st \<le> bufferValidEnd st
     \<and> bufferValidEnd st < 2 ^ 63
     \<and> bufferValidEnd st - bufferValidStart st \<le> getNumSamples (buffer st)"

definition info_ok :: "'a AudioSourceChannelInfo \<Rightarrow> bool" where
  "info_ok info \<longleftrightarrow>
     0 \<le> startSample info \<and> 0 \<le> numSamples info
     \<and> startSample info + numSamples info \<le> getNumSamples (info_buffer info)
     \<and> getNumSamples (info_buffer info) < 2 ^ 31"

text \<open>
  The positions that a call computes from the cursor are \<^verbatim>\<open>int64\<close> values, so that no sum
  of the call overflows: the end of a block of \<open>n\<close> samples (line 228), and the ends of
  the window and of the chunk of a refill (lines 246, 254 and 265).
\<close>

definition block_in_range :: "'a BufferingAudioSource \<Rightarrow> int \<Rightarrow> bool" where
  "block_in_range st n \<longleftrightarrow> - (2 ^ 63) \<le> nextPlayPos st \<and> nextPlayPos st + n < 2 ^ 63"

definition refill_in_range :: "'a BufferingAudioSource \<Rightarrow> bool" where
  "refill_in_range st \<longleftrightarrow>
     jmax 0 (nextPlayPos st) + getNumSamples (buffer st) + maxChunkSize < 2 ^ 63"

text \<open>A call leaves the shape of the request as it was: only samples change.\<close>

definition same_frame :: "'a AudioSourceChannelInfo \<Rightarrow> 'a AudioSourceChannelInfo \<Rightarrow> bool" where
  "same_frame info info' \<longleftrightarrow>
     startSample info' = startSample info
     \<and> numSamples info' = numSamples info
     \<and> getNumChannels (info_buffer info') = getNumChannels (info_buffer info)
     \<and> getNumSamples (info_buffer info') = getNumSamples (info_buffer info)"

text \<open>
  The data model of the spec: the samples at the absolute positions of the valid range
  are in the buffer at the physical index "position mod capacity".
\<close>

definition cache_holds :: "'a BufferingAudioSource \<Rightarrow> bool" where
  "cache_holds st \<longleftrightarrow>
     (\<forall>c \<in> {..< numberOfChannels st}. \<forall>p \<in> {bufferValidStart st ..< bufferValidEnd st}.
        channelData (buffer st) c (p mod getNumSamples (buffer st)) = sourceData (source st) c p)"

subsection \<open>Reachable states\<close>

text \<open>
  The invariant of the spec for the valid range, and the facts about a state that make it
  hold: the constructor never stores less than 1024 samples as the minimum, the cursor is
  an \<^verbatim>\<open>int64\<close> value, a registered object is prepared, and a prepared object has storage
  of at least the minimum, with a valid range inside it that leaves the guard margin of
  four samples free.
\<close>

definition range_inv :: "'a BufferingAudioSource \<Rightarrow> bool" where
  "range_inv st \<longleftrightarrow>
     0 \<le> bufferValidEnd st - bufferValidStart st
     \<and> bufferValidEnd st - bufferValidStart st \<le> getNumSamples (buffer st)"

definition state_inv :: "'a BufferingAudioSource \<Rightarrow> bool" where
  "state_inv st \<longleftrightarrow>
     1024 \<le> numberOfSamplesToBuffer st \<and> numberOfSamplesToBuffer st < 2 ^ 31
     \<and> - (2 ^ 63) \<le> nextPlayPos st \<and> nextPlayPos st < 2 ^ 63
     \<and> (isTimeSliceClient st \<longrightarrow> isPrepared st)
     \<and> (isPrepared st \<longrightarrow>
           numberOfSamplesToBuffer st \<le> getNumSamples (buffer st)
           \<and> getNumSamples (buffer st) < 2 ^ 31
           \<and> getNumChannels (buffer st) = numberOfChannels st
           \<and> 0 \<le> bufferValidStart st
           \<and> bufferValidStart st \<le> bufferValidEnd st
           \<and> bufferValidEnd st < 2 ^ 63
           \<and> bufferValidEnd st - bufferValidStart st \<le> getNumSamples (buffer st) - 4)"

text \<open>
  The states that calls of the public functions and of the background thread reach while
  no position overflows. Arguments are values of their types: an \<^verbatim>\<open>int\<close> is below
  \<open>2^31\<close>, an \<^verbatim>\<open>int64\<close> below \<open>2^63\<close>. \<^verbatim>\<open>prepareToPlay\<close> leaves the state of
  \<open>prepare_reset\<close> to the other threads while it waits (\<open>waiting\<close>). The background
  thread calls \<^verbatim>\<open>readNextBufferChunk\<close> for registered objects only; the other threads see
  the state between its two locked blocks (\<open>loop_checked\<close>, \<open>planned\<close>) and may move
  the cursor before the commit (\<open>committed\<close>). The wrapped source belongs to the caller,
  who may change it (\<open>source_changed\<close>). A refill whose window or chunk would end
  beyond the last \<^verbatim>\<open>int64\<close> position (\<open>refill_in_range\<close> fails) leads out of these
  states.
\<close>

inductive reachable :: "'a::zero BufferingAudioSource \<Rightarrow> bool" where
  constructed:
    "- (2 ^ 31) \<le> bufferSizeSamples \<Longrightarrow> bufferSizeSamples < 2 ^ 31
     \<Longrightarrow> reachable (BufferingAudioSource_new s bufferSizeSamples numChannels prefill)"
| waiting:
    "reachable st
     \<Longrightarrow> bufferSizeNeeded = jmax (to_int32 (samplesPerBlockExpected * 2)) (numberOfSamplesToBuffer st)
     \<Longrightarrow> newSampleRate \<noteq> sampleRate st
           \<or> bufferSizeNeeded \<noteq> getNumSamples (buffer st)
           \<or> \<not> isPrepared st
     \<Longrightarrow> reachable (prepare_reset st bufferSizeNeeded newSampleRate)"
| released:
    "reachable st \<Longrightarrow> reachable (releaseResources st)"
| seeked:
    "reachable st \<Longrightarrow> - (2 ^ 63) \<le> newPosition \<Longrightarrow> newPosition < 2 ^ 63
     \<Longrightarrow> reachable (setNextReadPosition st newPosition)"
| played:
    "reachable st \<Longrightarrow> getNextAudioBlock st info = Some (st', info') \<Longrightarrow> reachable st'"
| source_changed:
    "reachable st \<Longrightarrow> reachable (st\<lparr>source := s\<rparr>)"
| loop_checked:
    "reachable st \<Longrightarrow> isTimeSliceClient st \<Longrightarrow> reachable (loop_check st)"
| planned:
    "reachable st \<Longrightarrow> isTimeSliceClient st \<Longrightarrow> refill_in_range st
     \<Longrightarrow> reachable (fst (plan_refill st))"
| committed:
    "reachable st \<Longrightarrow> isTimeSliceClient st \<Longrightarrow> refill_in_range st
     \<Longrightarrow> plan_refill st = (st1, p)
     \<Longrightarrow> sectionToReadStart p \<noteq> sectionToReadEnd p
     \<Longrightarrow> readBufferSections st1
           (refill_segments (getNumSamples (buffer st1)) (sectionToReadStart p) (sectionToReadEnd p))
         = Some st2
     \<Longrightarrow> - (2 ^ 63) \<le> pos \<Longrightarrow> pos < 2 ^ 63
     \<Longrightarrow> reachable (commit_range (st2\<lparr>nextPlayPos := pos\<rparr>) p)"

subsection \<open>A scenario\<close>

text \<open>
  The scenario of the spec: a source of 10000 samples that does not loop, a cache of 4096
  samples on two channels. \<open>example_fresh\<close> is the state after the constructor and
  \<^verbatim>\<open>prepareToPlay\<close> for blocks of 512 samples, \<open>example_filled\<close> the state after the first
  refill, and \<open>example_block\<close> a request for 512 samples into a buffer that holds other
  data.
\<close>

definition example_source :: "int PositionableAudioSource" where
  "example_source =
     \<lparr>sourceData = (\<lambda>c p. if 0 \<le> p \<and> p < 10000 then 1 + p + 10000 * int c else 0),
      sourcePosition = 0,
      sourceLooping = False,
      sourceTotalLength = 10000\<rparr>"

definition example_fresh :: "int BufferingAudioSource" where
  "example_fresh =
     \<lparr>source = example_source,
      numberOfSamplesToBuffer = 4096,
      numberOfChannels = 2,
      prefillBuffer = False,
      buffer = \<lparr>getNumChannels = 2, getNumSamples = 4096, channelData = (\<lambda>c i. 0)\<rparr>,
      bufferValidStart = 0,
      bufferValidEnd = 0,
      nextPlayPos = 0,
      sampleRate = 44100,
      wasSourceLooping = False,
      isPrepared = True,
      isTimeSliceClient = True\<rparr>"

definition example_filled :: "int BufferingAudioSource" where
  "example_filled =
     example_fresh
       \<lparr>source := example_source\<lparr>sourcePosition := 2048\<rparr>,
        buffer := \<lparr>getNumChannels = 2, getNumSamples = 4096,
                   channelData = (\<lambda>c i. if c < 2 \<and> 0 \<le> i \<and> i < 2048
                                        then sourceData example_source c i else 0)\<rparr>,
        bufferValidEnd := 2048\<rparr>"

definition example_block :: "int AudioSourceChannelInfo" where
  "example_block =
     \<lparr>info_buffer = \<lparr>getNumChannels = 2, getNumSamples = 512, channelData = (\<lambda>c i. 7)\<rparr>,
      startSample = 0,
      numSamples = 512\<rparr>"

text \<open>
  Two more states of the scenario: the cursor moved to position 9800, far outside the
  valid range; and the looping flag of the source switched on at cursor 500.
\<close>

definition example_seeked :: "int BufferingAudioSource" where
  "example_seeked = setNextReadPosition example_filled 9800"

definition example_loop_toggled :: "int BufferingAudioSource" where
  "example_loop_toggled =
     (setNextReadPosition example_filled 500)
       \<lparr>source := (source example_filled)\<lparr>sourceLooping := True\<rparr>\<rparr>"

text \<open>
  The sample of the buffer of a request at a channel and an index.
\<close>

definition sample :: "nat \<Rightarrow> int \<Rightarrow> 'a AudioSourceChannelInfo \<Rightarrow> 'a" where
  "sample c i info = channelData (info_buffer info) c i"

text \<open>
  A request of the scenario into a buffer of three channels, one more than the cache has;
  and a request for one sample.
\<close>

definition example_block_wide :: "int AudioSourceChannelInfo" where
  "example_block_wide =
     \<lparr>info_buffer = \<lparr>getNumChannels = 3, getNumSamples = 512, channelData = (\<lambda>c i. 7)\<rparr>,
      startSample = 0,
      numSamples = 512\<rparr>"

definition example_block_one :: "int AudioSourceChannelInfo" where
  "example_block_one =
     \<lparr>info_buffer = \<lparr>getNumChannels = 2, getNumSamples = 512, channelData = (\<lambda>c i. 7)\<rparr>,
      startSample = 0,
      numSamples = 1\<rparr>"

text \<open>
  The last position that an \<^verbatim>\<open>int64\<close> holds, \<open>2^63 - 1\<close>. \<open>example_top\<close> is the state of
  the scenario after the first refill with the cursor moved there. \<open>example_far\<close> is the
  state of the scenario after the cursor was moved to \<open>2^31 - 2000\<close>, two refills cached
  the 4092 positions from there on (where the source of the scenario has ended and
  produces zeros), and the cursor was moved to the last position; \<open>example_far_half\<close> is
  the state between the two refills.
\<close>

definition last_position :: int where
  "last_position = 9223372036854775807"

definition example_top :: "int BufferingAudioSource" where
  "example_top = setNextReadPosition example_filled last_position"

definition example_far_half :: "int BufferingAudioSource" where
  "example_far_half =
     example_fresh
       \<lparr>source := example_source\<lparr>sourcePosition := 2147483696\<rparr>,
        bufferValidStart := 2147481648,
        bufferValidEnd := 2147483696,
        nextPlayPos := 2147481648\<rparr>"

definition example_far :: "int BufferingAudioSource" where
  "example_far =
     example_fresh
       \<lparr>source := example_source\<lparr>sourcePosition := 2147485740\<rparr>,
        bufferValidStart := 2147481648,
        bufferValidEnd := 2147485740,
        nextPlayPos := last_position\<rparr>"

text \<open>
  Objects of their own: the state after the constructor for a minimum of 2048 samples,
  before any call of \<^verbatim>\<open>prepareToPlay\<close>; and the object of the scenario constructed with
  the prefill switched on.
\<close>

definition example_prefilling :: "int BufferingAudioSource" where
  "example_prefilling = BufferingAudioSource_new example_source 4096 2 True"

definition example_small :: "int BufferingAudioSource" where
  "example_small =
     \<lparr>source = example_source,
      numberOfSamplesToBuffer = 2048,
      numberOfChannels = 2,
      prefillBuffer = False,
      buffer = \<lparr>getNumChannels = 0, getNumSamples = 0, channelData = (\<lambda>c i. 0)\<rparr>,
      bufferValidStart = 0,
      bufferValidEnd = 0,
      nextPlayPos = 0,
      sampleRate = 0,
      wasSourceLooping = False,
      isPrepared = False,
      isTimeSliceClient = False\<rparr>"

section \<open>Arithmetic\<close>

subsection \<open>Casts, remainders and clamping\<close>

lemma to_int32_id: "- (2 ^ 31) \<le> x \<Longrightarrow> x < 2 ^ 31 \<Longrightarrow> to_int32 x = x"
  by (simp add: to_int32_def)

lemma to_int64_id: "- (2 ^ 63) \<le> x \<Longrightarrow> x < 2 ^ 63 \<Longrightarrow> to_int64 x = x"
  by (simp add: to_int64_def)

lemma to_int64_range: "- (2 ^ 63) \<le> to_int64 x" "to_int64 x < 2 ^ 63"
proof -
  have "0 \<le> (x + 2 ^ 63) mod 2 ^ 64" "(x + 2 ^ 63) mod 2 ^ 64 < (2 ^ 64 :: int)"
    by simp_all
  then show "- (2 ^ 63) \<le> to_int64 x" "to_int64 x < 2 ^ 63"
    unfolding to_int64_def by simp_all
qed

lemma to_int32_to_int64: "to_int32 (to_int64 x) = to_int32 x"
proof -
  define y where "y = (x + 2 ^ 63) mod (2 ^ 64 :: int)"
  have "y mod 2 ^ 32 = (x + 2 ^ 63) mod (2 ^ 32 :: int)"
    unfolding y_def by (rule mod_mod_cancel) simp
  then have "(y + (2 ^ 31 - 2 ^ 63)) mod 2 ^ 32 = ((x + 2 ^ 63) + (2 ^ 31 - 2 ^ 63)) mod (2 ^ 32 :: int)"
    by (rule mod_add_cong) simp
  moreover have "y - 2 ^ 63 + 2 ^ 31 = y + (2 ^ 31 - 2 ^ 63)" by simp
  moreover have "(x + 2 ^ 63) + (2 ^ 31 - 2 ^ 63) = x + (2 ^ 31 :: int)" by simp
  ultimately have "(y - 2 ^ 63 + 2 ^ 31) mod 2 ^ 32 = (x + 2 ^ 31) mod (2 ^ 32 :: int)"
    by (simp only:)
  then show ?thesis unfolding to_int32_def to_int64_def y_def by (simp only:)
qed

lemma c_abs_id: "0 \<le> x \<Longrightarrow> x < 2 ^ 31 \<Longrightarrow> c_abs x = x"
  by (simp add: c_abs_def to_int32_def)

lemma c_abs_small: "- 512 \<le> x \<Longrightarrow> x < 2 ^ 31 \<Longrightarrow> c_abs x > 512 \<longleftrightarrow> x > 512"
  by (cases "0 \<le> x") (simp_all add: c_abs_def to_int32_def)

lemma c_rem_nonneg: "0 \<le> a \<Longrightarrow> 0 < b \<Longrightarrow> c_rem a b = a mod b"
  by (cases "a = 0") (simp_all add: c_rem_def)

lemma jmax_le: "a \<le> b \<Longrightarrow> jmax a b = b"
  by (simp add: jmax_def)

lemma jmax_max: "jmax a b = max a b"
  by (simp add: jmax_def max_def)

lemma jmin_min: "jmin a b = min a b"
  by (simp add: jmin_def min_def)

lemma jlimit_mono: "lo \<le> hi \<Longrightarrow> v \<le> w \<Longrightarrow> jlimit lo hi v \<le> jlimit lo hi w"
  by (simp add: jlimit_def)

lemma valid_range_cases:
  assumes "lo \<le> hi" "0 \<le> n"
  shows "jlimit lo hi pos - pos = jlimit lo hi (pos + n) - pos
       \<or> (0 \<le> jlimit lo hi pos - pos \<and> jlimit lo hi pos - pos < jlimit lo hi (pos + n) - pos
          \<and> jlimit lo hi (pos + n) - pos \<le> n)"
  using assms by (auto simp: jlimit_def)

lemma index_cast:
  assumes "0 < N" "N < 2 ^ 31" "0 \<le> a"
  shows "to_int32 (c_rem a N) = a mod N"
proof -
  have "0 \<le> a mod N" "a mod N < N" using assms(1) by simp_all
  then have "- (2 ^ 31) \<le> a mod N" "a mod N < 2 ^ 31" using assms(2) by linarith+
  then have "to_int32 (a mod N) = a mod N" by (rule to_int32_id)
  then show ?thesis using assms by (simp add: c_rem_nonneg)
qed

lemma mod_offset:
  fixes s N j :: int
  assumes "0 < N" "0 \<le> j"  "j \<le> N"
  shows "(s + j) mod N = (if s mod N + j < N then s mod N + j else s mod N + j - N)"
proof -
  define x where "x = s mod N + j"
  have k: "0 \<le> s mod N" "s mod N < N" using assms(1) by simp_all
  have e: "(s + j) mod N = x mod N" by (simp add: x_def mod_add_left_eq)
  show ?thesis
  proof (cases "x < N")
    case True
    have "0 \<le> x" using k assms by (simp add: x_def)
    then have "x mod N = x" using True by (rule mod_pos_pos_trivial)
    with True e show ?thesis by (simp add: x_def)
  next
    case False
    have "0 \<le> x - N" using False by simp
    moreover have "x - N < N" using k assms unfolding x_def by linarith
    ultimately have "(x - N) mod N = x - N" by (rule mod_pos_pos_trivial)
    moreover have "(x - N) mod N = x mod N" by (rule minus_mod_self2)
    ultimately have "x mod N = x - N" by simp
    with False e show ?thesis by (simp add: x_def)
  qed
qed

lemma wrap_test:
  fixes s N len :: int
  assumes "0 < N" "0 < len" "len \<le> N"
  shows "s mod N < (s + len) mod N \<longleftrightarrow> s mod N + len < N"
proof -
  have "(s + len) mod N = (if s mod N + len < N then s mod N + len else s mod N + len - N)"
    using assms by (intro mod_offset) simp_all
  then show ?thesis using assms by (simp split: if_splits)
qed

lemma mod_distinct:
  fixes p q N :: int
  assumes "p < q" "q - p < N"
  shows "p mod N \<noteq> q mod N"
proof
  assume "p mod N = q mod N"
  then have "q mod N = p mod N" by simp
  then have "N dvd q - p" by (simp add: mod_eq_dvd_iff)
  then have "(q - p) mod N = 0" by simp
  moreover have "(q - p) mod N = q - p" using assms by (intro mod_pos_pos_trivial) simp_all
  ultimately show False using assms(1) by simp
qed

subsection \<open>The segments of the two paths, in closed form\<close>

lemma refill_segments_closed:
  assumes "0 < N" "N < 2 ^ 31" "0 \<le> s" "0 < len" "len \<le> N"
  shows "refill_segments N s (s + len) =
     (if s mod N + len < N
      then [(s, len, s mod N)]
      else [(s, N - s mod N, s mod N), (s + (N - s mod N), len - (N - s mod N), 0)])"
proof -
  have si: "to_int32 (c_rem s N) = s mod N" using assms by (intro index_cast)
  have ei: "to_int32 (c_rem (s + len) N) = (s + len) mod N" using assms by (intro index_cast) simp_all
  have "- (2 ^ 31) \<le> len" "len < 2 ^ 31" using assms by linarith+
  then have l: "to_int32 len = len" by (rule to_int32_id)
  have t: "s mod N < (s + len) mod N \<longleftrightarrow> s mod N + len < N"
    using assms by (intro wrap_test)
  show ?thesis
    by (simp add: refill_segments_def Let_def si ei l t)
qed

lemma read_segments_closed:
  assumes "0 < N" "N < 2 ^ 31" "0 \<le> vs + pos" "0 < len" "len \<le> N"
  shows "read_segments N pos vs (vs + len) =
     (if (vs + pos) mod N + len < N
      then [(vs, (vs + pos) mod N, len)]
      else [(vs, (vs + pos) mod N, N - (vs + pos) mod N),
            (vs + (N - (vs + pos) mod N), 0, len - (N - (vs + pos) mod N))])"
proof -
  have si: "to_int32 (c_rem (vs + pos) N) = (vs + pos) mod N"
    using assms by (intro index_cast)
  have "to_int32 (c_rem ((vs + pos) + len) N) = ((vs + pos) + len) mod N"
    using assms by (intro index_cast) simp_all
  then have ei: "to_int32 (c_rem (vs + len + pos) N) = ((vs + pos) + len) mod N"
    by (simp add: algebra_simps)
  have t: "(vs + pos) mod N < ((vs + pos) + len) mod N \<longleftrightarrow> (vs + pos) mod N + len < N"
    using assms by (intro wrap_test)
  show ?thesis
    by (simp add: read_segments_def Let_def si ei t)
qed

lemma refill_physical_closed:
  assumes "0 < N" "N < 2 ^ 31" "0 \<le> s" "0 < len" "len \<le> N"
  shows "refill_physical N s (s + len) =
     (if s mod N + len < N then [(s mod N, len)]
      else [(s mod N, N - s mod N), (0, s mod N + len - N)])"
  using refill_segments_closed [OF assms] by (simp add: refill_physical_def)

lemma read_physical_closed:
  assumes "0 < N" "N < 2 ^ 31" "0 \<le> s" "0 < len" "len \<le> N"
  shows "read_physical N pos (s - pos) (s - pos + len) =
     (if s mod N + len < N then [(s mod N, len)]
      else [(s mod N, N - s mod N), (0, s mod N + len - N)])"
  using read_segments_closed [of N "s - pos" pos len] assms by (simp add: read_physical_def)

lemma positions_image:
  fixes s N len :: int
  assumes "0 < N" "0 \<le> len" "len \<le> N"
  shows "(\<lambda>p. p mod N) ` {s ..< s + len} =
     (if s mod N + len < N then {s mod N ..< s mod N + len}
      else {s mod N ..< N} \<union> {0 ..< s mod N + len - N})"
proof -
  define k where "k = s mod N"
  have k: "0 \<le> k" "k < N" using assms(1) by (simp_all add: k_def)
  have step: "(s + j) mod N = (if k + j < N then k + j else k + j - N)" if "0 \<le> j" "j \<le> N" for j
    unfolding k_def using assms(1) that by (rule mod_offset)
  show ?thesis
  proof (intro set_eqI iffI)
    fix x
    assume "x \<in> (\<lambda>p. p mod N) ` {s ..< s + len}"
    then obtain p where p: "s \<le> p" "p < s + len" "x = p mod N" by auto
    define j where "j = p - s"
    have j: "0 \<le> j" "j < len" "j \<le> N" using p assms by (simp_all add: j_def)
    have "x = (s + j) mod N" using p by (simp add: j_def)
    then have "x = (if k + j < N then k + j else k + j - N)" using step j by simp
    then show "x \<in> (if s mod N + len < N then {s mod N ..< s mod N + len}
      else {s mod N ..< N} \<union> {0 ..< s mod N + len - N})"
      using j k unfolding k_def [symmetric] by (auto split: if_splits)
  next
    fix x
    assume x: "x \<in> (if s mod N + len < N then {s mod N ..< s mod N + len}
      else {s mod N ..< N} \<union> {0 ..< s mod N + len - N})"
    define j where "j = (if k \<le> x \<and> (k + len < N \<or> x < N) \<and> x < k + len then x - k else x + N - k)"
    have j: "0 \<le> j \<and> j < len \<and> (if k + j < N then k + j else k + j - N) = x"
      using x k assms unfolding k_def [symmetric] j_def by (auto split: if_splits)
    then have "(s + j) mod N = x" using step [of j] assms by simp
    moreover have "s + j \<in> {s ..< s + len}" using j by simp
    ultimately show "x \<in> (\<lambda>p. p mod N) ` {s ..< s + len}" by blast
  qed
qed

lemma closed_segments_ok:
  fixes k N len :: int
  assumes "0 \<le> k" "k < N" "0 < len" "len \<le> N"
  defines "segs \<equiv> (if k + len < N then [(k, len)] else [(k, N - k), (0, k + len - N)])"
  shows "sum_list (map snd segs) = len"
    and "\<forall>seg \<in> set segs. 0 \<le> snd seg \<and> segment_indices seg \<subseteq> {0 ..< N}"
    and "disjoint_segments segs"
    and "(\<Union>seg \<in> set segs. segment_indices seg) =
           (if k + len < N then {k ..< k + len} else {k ..< N} \<union> {0 ..< k + len - N})"
  using assms by (auto simp: segment_indices_def)

section \<open>The read path\<close>

subsection \<open>The part of a block that is in the valid range\<close>

lemma getValidBufferRange_in_range:
  assumes "block_in_range st n" "0 \<le> n"
  shows "getValidBufferRange st n =
     Range_new
       (to_int32 (jlimit (bufferValidStart st) (bufferValidEnd st) (nextPlayPos st) - nextPlayPos st))
       (to_int32 (jlimit (bufferValidStart st) (bufferValidEnd st) (nextPlayPos st + n) - nextPlayPos st))"
proof -
  have "- (2 ^ 63) \<le> nextPlayPos st + n" "nextPlayPos st + n < 2 ^ 63"
    using assms by (simp_all add: block_in_range_def)
  then have "to_int64 (nextPlayPos st + n) = nextPlayPos st + n" by (rule to_int64_id)
  then show ?thesis by (simp add: getValidBufferRange_def Let_def to_int32_to_int64)
qed

lemma getValidBufferRange_cases:
  assumes "bufferValidStart st \<le> bufferValidEnd st" and "0 \<le> n" and "n < 2 ^ 31"
    and br: "block_in_range st n"
  shows "isEmpty (getValidBufferRange st n)
       \<or> (0 \<le> getStart (getValidBufferRange st n)
          \<and> getStart (getValidBufferRange st n) < getEnd (getValidBufferRange st n)
          \<and> getEnd (getValidBufferRange st n) \<le> n)"
proof -
  let ?pos = "nextPlayPos st"
  let ?a = "jlimit (bufferValidStart st) (bufferValidEnd st) ?pos - ?pos"
  let ?b = "jlimit (bufferValidStart st) (bufferValidEnd st) (?pos + n) - ?pos"
  have r: "getValidBufferRange st n = Range_new (to_int32 ?a) (to_int32 ?b)"
    using br assms(2) by (rule getValidBufferRange_in_range)
  from valid_range_cases [OF assms(1,2), of ?pos]
  show ?thesis
  proof
    assume "?a = ?b"
    then show ?thesis by (simp add: r Range_new_def isEmpty_def jmax_def)
  next
    assume h: "0 \<le> ?a \<and> ?a < ?b \<and> ?b \<le> n"
    then have "to_int32 ?a = ?a" "to_int32 ?b = ?b"
      using assms(3) by (simp_all add: to_int32_id)
    with h show ?thesis
      by (simp add: r Range_new_def getStart_def getEnd_def jmax_def)
  qed
qed

lemma getValidBufferRange_nonempty:
  assumes "bufferValidStart st \<le> bufferValidEnd st" "0 \<le> n" "n < 2 ^ 31"
    and "nextPlayPos st < bufferValidEnd st" "bufferValidStart st < nextPlayPos st + n"
    and br: "block_in_range st n"
  shows "getValidBufferRange st n =
     (max (bufferValidStart st) (nextPlayPos st) - nextPlayPos st,
      min (bufferValidEnd st) (nextPlayPos st + n) - nextPlayPos st)"
proof -
  let ?a = "max (bufferValidStart st) (nextPlayPos st) - nextPlayPos st"
  let ?b = "min (bufferValidEnd st) (nextPlayPos st + n) - nextPlayPos st"
  have a: "jlimit (bufferValidStart st) (bufferValidEnd st) (nextPlayPos st) - nextPlayPos st = ?a"
    using assms by (simp add: jlimit_def max_def)
  have b: "jlimit (bufferValidStart st) (bufferValidEnd st) (nextPlayPos st + n) - nextPlayPos st = ?b"
    using assms by (simp add: jlimit_def min_def)
  have ab: "?a \<le> ?b" using assms by (simp add: max_def min_def)
  have "- (2 ^ 31) \<le> ?a" "?a < 2 ^ 31" using assms unfolding max_def by (simp_all split: if_splits)
  then have ca: "to_int32 ?a = ?a" by (rule to_int32_id)
  have "- (2 ^ 31) \<le> ?b" "?b < 2 ^ 31" using assms unfolding min_def by (simp_all split: if_splits)
  then have cb: "to_int32 ?b = ?b" by (rule to_int32_id)
  have "jmax ?a ?b = ?b" using ab by (rule jmax_le)
  then show ?thesis
    unfolding getValidBufferRange_in_range [OF br assms(2)] a b ca cb Range_new_def by simp
qed

lemma getValidBufferRange_empty:
  assumes "bufferValidStart st \<le> bufferValidEnd st" "0 \<le> n"
    and "\<not> (nextPlayPos st < bufferValidEnd st \<and> bufferValidStart st < nextPlayPos st + n)"
    and br: "block_in_range st n"
  shows "isEmpty (getValidBufferRange st n)"
proof -
  have "jlimit (bufferValidStart st) (bufferValidEnd st) (nextPlayPos st)
      = jlimit (bufferValidStart st) (bufferValidEnd st) (nextPlayPos st + n)"
    using assms by (auto simp: jlimit_def)
  then show ?thesis
    by (simp add: getValidBufferRange_in_range [OF br assms(2)] Range_new_def isEmpty_def jmax_def)
qed

lemma getValidBufferRange_empty_iff:
  assumes "bufferValidStart st \<le> bufferValidEnd st" "0 \<le> n" "n < 2 ^ 31"
    and br: "block_in_range st n"
  shows "isEmpty (getValidBufferRange st n) \<longleftrightarrow>
     {nextPlayPos st ..< nextPlayPos st + n} \<inter> {bufferValidStart st ..< bufferValidEnd st} = {}"
proof (cases "nextPlayPos st < bufferValidEnd st \<and> bufferValidStart st < nextPlayPos st + n")
  case True
  then have g: "getValidBufferRange st n =
     (max (bufferValidStart st) (nextPlayPos st) - nextPlayPos st,
      min (bufferValidEnd st) (nextPlayPos st + n) - nextPlayPos st)"
    using assms by (intro getValidBufferRange_nonempty) simp_all
  have e: "isEmpty (getValidBufferRange st n) \<longleftrightarrow>
      max (bufferValidStart st) (nextPlayPos st) = min (bufferValidEnd st) (nextPlayPos st + n)"
    unfolding g isEmpty_def by simp
  show ?thesis
  proof (cases "max (bufferValidStart st) (nextPlayPos st) < min (bufferValidEnd st) (nextPlayPos st + n)")
    case True
    then have "max (bufferValidStart st) (nextPlayPos st) \<in>
        {nextPlayPos st ..< nextPlayPos st + n} \<inter> {bufferValidStart st ..< bufferValidEnd st}"
      by simp
    then show ?thesis using True e by auto
  next
    case False
    then have "max (bufferValidStart st) (nextPlayPos st) = min (bufferValidEnd st) (nextPlayPos st + n)"
      using True assms by (auto simp: max_def min_def split: if_splits)
    moreover have "{nextPlayPos st ..< nextPlayPos st + n} \<inter> {bufferValidStart st ..< bufferValidEnd st} = {}"
      using False by (auto simp: max_def min_def split: if_splits)
    ultimately show ?thesis using e by simp
  qed
next
  case False
  then have "isEmpty (getValidBufferRange st n)"
    using assms by (intro getValidBufferRange_empty) simp_all
  moreover have "{nextPlayPos st ..< nextPlayPos st + n} \<inter> {bufferValidStart st ..< bufferValidEnd st} = {}"
    using False by auto
  ultimately show ?thesis by simp
qed

subsection \<open>Clearing and copying\<close>

lemma info_clear_Some:
  assumes "0 \<le> a" "0 \<le> m" "a + m \<le> getNumSamples (info_buffer info)"
  shows "info_clear info a m =
    Some (info\<lparr>info_buffer := (info_buffer info)\<lparr>channelData :=
      (\<lambda>c i. if c < getNumChannels (info_buffer info) \<and> a \<le> i \<and> i < a + m
             then 0 else channelData (info_buffer info) c i)\<rparr>\<rparr>)"
  using assms by (simp add: info_clear_def AudioBuffer_clear_def)

lemma copy_segments_read:
  fixes info :: "'a AudioSourceChannelInfo"
  assumes N: "0 < N" "N < 2 ^ 31" "getNumSamples cache = N"
    and s: "0 \<le> vs + pos" "0 < len" "len \<le> N"
    and ch: "chan < getNumChannels cache" "chan < getNumChannels (info_buffer info)"
    and d: "0 \<le> startSample info + vs" "startSample info + vs + len \<le> getNumSamples (info_buffer info)"
  shows "\<exists>info'. copy_segments cache chan (read_segments N pos vs (vs + len)) info = Some info'
     \<and> same_frame info info'
     \<and> (\<forall>c i. channelData (info_buffer info') c i =
          (if c = chan \<and> startSample info + vs \<le> i \<and> i < startSample info + vs + len
           then channelData cache chan ((pos + (i - startSample info)) mod N)
           else channelData (info_buffer info) c i))"
proof -
  define k where "k = (vs + pos) mod N"
  have k: "0 \<le> k" "k < N" using N(1) by (simp_all add: k_def)
  have segs: "read_segments N pos vs (vs + len) =
     (if k + len < N then [(vs, k, len)]
      else [(vs, k, N - k), (vs + (N - k), 0, len - (N - k))])"
    unfolding k_def using N(1,2) s by (rule read_segments_closed)
  have idx: "(pos + (i - startSample info)) mod N =
      (if k + (i - startSample info - vs) < N then k + (i - startSample info - vs)
       else k + (i - startSample info - vs) - N)"
    if "startSample info + vs \<le> i" "i < startSample info + vs + len" for i
  proof -
    have "pos + (i - startSample info) = (vs + pos) + (i - startSample info - vs)" by simp
    moreover have "((vs + pos) + (i - startSample info - vs)) mod N =
      (if k + (i - startSample info - vs) < N then k + (i - startSample info - vs)
       else k + (i - startSample info - vs) - N)"
      unfolding k_def using N(1) that s(3) by (intro mod_offset) simp_all
    ultimately show ?thesis by simp
  qed
  show ?thesis
  proof (cases "k + len < N")
    case True
    then show ?thesis
      using k N s ch d idx
      by (simp add: segs copyFrom_def same_frame_def) (auto simp: algebra_simps)
  next
    case False
    then show ?thesis
      using k N s ch d idx
      by (simp add: segs copyFrom_def same_frame_def) (auto simp: algebra_simps)
  qed
qed

lemma copy_channels_read:
  fixes info :: "'a AudioSourceChannelInfo"
  assumes N: "0 < getNumSamples (buffer st)" "getNumSamples (buffer st) < 2 ^ 31"
    and s: "0 \<le> vs + nextPlayPos st" "0 < len" "len \<le> getNumSamples (buffer st)"
    and ch: "k \<le> getNumChannels (buffer st)" "k \<le> getNumChannels (info_buffer info)"
    and d: "0 \<le> startSample info + vs" "startSample info + vs + len \<le> getNumSamples (info_buffer info)"
  shows "\<exists>info'. copy_channels st vs (vs + len) k info = Some info'
     \<and> same_frame info info'
     \<and> (\<forall>c i. channelData (info_buffer info') c i =
          (if c < k \<and> startSample info + vs \<le> i \<and> i < startSample info + vs + len
           then channelData (buffer st) c ((nextPlayPos st + (i - startSample info)) mod getNumSamples (buffer st))
           else channelData (info_buffer info) c i))"
  using ch d
proof (induction k arbitrary: info)
  case 0
  then show ?case by (simp add: same_frame_def)
next
  case (Suc k)
  have "k < getNumChannels (buffer st)" "k < getNumChannels (info_buffer info)"
    using Suc.prems by simp_all
  from copy_segments_read [OF N(1,2) refl s this Suc.prems(3,4)]
  obtain info1 where one:
    "copy_segments (buffer st) k
       (read_segments (getNumSamples (buffer st)) (nextPlayPos st) vs (vs + len)) info = Some info1"
    "same_frame info info1"
    "\<And>c i. channelData (info_buffer info1) c i =
          (if c = k \<and> startSample info + vs \<le> i \<and> i < startSample info + vs + len
           then channelData (buffer st) k ((nextPlayPos st + (i - startSample info)) mod getNumSamples (buffer st))
           else channelData (info_buffer info) c i)"
    by blast
  have f: "startSample info1 = startSample info"
    "getNumChannels (info_buffer info1) = getNumChannels (info_buffer info)"
    "getNumSamples (info_buffer info1) = getNumSamples (info_buffer info)"
    using one(2) by (simp_all add: same_frame_def)
  have "k \<le> getNumChannels (buffer st)" "k \<le> getNumChannels (info_buffer info1)"
    "0 \<le> startSample info1 + vs" "startSample info1 + vs + len \<le> getNumSamples (info_buffer info1)"
    using Suc.prems f by simp_all
  from Suc.IH [OF this]
  obtain info2 where rest:
    "copy_channels st vs (vs + len) k info1 = Some info2"
    "same_frame info1 info2"
    "\<And>c i. channelData (info_buffer info2) c i =
          (if c < k \<and> startSample info1 + vs \<le> i \<and> i < startSample info1 + vs + len
           then channelData (buffer st) c ((nextPlayPos st + (i - startSample info1)) mod getNumSamples (buffer st))
           else channelData (info_buffer info1) c i)"
    by blast
  have "copy_channels st vs (vs + len) (Suc k) info = Some info2"
    using N(1) one(1) rest(1) by simp
  moreover have "same_frame info info2"
    using one(2) rest(2) by (simp add: same_frame_def)
  moreover have "channelData (info_buffer info2) c i =
          (if c < Suc k \<and> startSample info + vs \<le> i \<and> i < startSample info + vs + len
           then channelData (buffer st) c ((nextPlayPos st + (i - startSample info)) mod getNumSamples (buffer st))
           else channelData (info_buffer info) c i)" for c i
    by (simp add: rest(3) one(3) f less_Suc_eq)
  ultimately show ?case by blast
qed

subsection \<open>What one call does\<close>

lemma getNextAudioBlock_miss:
  assumes "info_ok info" "isEmpty (getValidBufferRange st (numSamples info))"
  shows "getNextAudioBlock st info =
     Some (st, info\<lparr>info_buffer := (info_buffer info)\<lparr>channelData :=
        (\<lambda>c i. if c < getNumChannels (info_buffer info)
                    \<and> startSample info \<le> i \<and> i < startSample info + numSamples info
                 then 0 else channelData (info_buffer info) c i)\<rparr>\<rparr>)"
  using assms
  by (simp add: getNextAudioBlock_def clearActiveBufferRegion_def info_clear_Some info_ok_def)

lemma getNextAudioBlock_hit:
  fixes st :: "'a::zero BufferingAudioSource"
  assumes c: "cache_ok st" and i: "info_ok info"
    and ne: "\<not> isEmpty (getValidBufferRange st (numSamples info))"
    and br: "block_in_range st (numSamples info)"
  shows "\<exists>info'. getNextAudioBlock st info =
        Some (st\<lparr>nextPlayPos := nextPlayPos st + numSamples info\<rparr>, info')
     \<and> same_frame info info'
     \<and> (\<forall>c i. channelData (info_buffer info') c i =
          (if c < getNumChannels (info_buffer info)
              \<and> startSample info \<le> i \<and> i < startSample info + numSamples info
           then (if bufferValidStart st \<le> nextPlayPos st + (i - startSample info)
                    \<and> nextPlayPos st + (i - startSample info) < bufferValidEnd st
                 then (if c < numberOfChannels st
                       then channelData (buffer st) c
                              ((nextPlayPos st + (i - startSample info)) mod getNumSamples (buffer st))
                       else channelData (info_buffer info) c i)
                 else 0)
           else channelData (info_buffer info) c i))"
proof -
  define n where "n = numSamples info"
  define pos where "pos = nextPlayPos st"
  define S where "S = bufferValidStart st"
  define E where "E = bufferValidEnd st"
  define N where "N = getNumSamples (buffer st)"
  define start where "start = startSample info"
  define a where "a = max S pos - pos"
  define b where "b = min E (pos + n) - pos"
  have co: "0 < N" "N < 2 ^ 31" "numberOfChannels st \<le> getNumChannels (buffer st)"
    "0 \<le> S" "S \<le> E" "E - S \<le> N"
    using c by (simp_all add: cache_ok_def N_def S_def E_def)
  have io: "0 \<le> start" "0 \<le> n" "start + n \<le> getNumSamples (info_buffer info)"
    "getNumSamples (info_buffer info) < 2 ^ 31"
    using i by (simp_all add: info_ok_def start_def n_def)
  have n31: "n < 2 ^ 31" using io by linarith
  have br': "block_in_range st n" using br by (simp add: n_def)
  have hit: "pos < E \<and> S < pos + n"
    using ne getValidBufferRange_empty [of st n] co(5) io(2) br'
    unfolding n_def pos_def S_def E_def by blast
  have g: "getValidBufferRange st n = (a, b)"
    unfolding a_def b_def pos_def S_def E_def
    using co(5) io(2) n31 hit br' unfolding pos_def S_def E_def
    by (intro getValidBufferRange_nonempty) simp_all
  have ab: "0 \<le> a" "a < b" "b \<le> n"
    using ne hit co(5) io(2) unfolding n_def [symmetric] g isEmpty_def
    by (simp_all add: a_def b_def max_def min_def split: if_splits)
  have len: "b - a \<le> N" "0 \<le> a + pos"
    using co hit by (simp_all add: a_def b_def max_def min_def split: if_splits)
  \<comment> \<open>the two clears\<close>
  define info1 where "info1 = (if a > 0 then info\<lparr>info_buffer := (info_buffer info)\<lparr>channelData :=
      (\<lambda>c i. if c < getNumChannels (info_buffer info) \<and> start \<le> i \<and> i < start + a
             then 0 else channelData (info_buffer info) c i)\<rparr>\<rparr> else info)"
  have c1: "(if a > 0 then info_clear info start a else Some info) = Some info1"
    using ab io by (simp add: info1_def info_clear_Some)
  have f1: "same_frame info info1" by (simp add: info1_def same_frame_def)
  define info2 where "info2 = (if b < n then info1\<lparr>info_buffer := (info_buffer info1)\<lparr>channelData :=
      (\<lambda>c i. if c < getNumChannels (info_buffer info1) \<and> start + b \<le> i \<and> i < start + b + (n - b)
             then 0 else channelData (info_buffer info1) c i)\<rparr>\<rparr> else info1)"
  have "- (2 ^ 31) \<le> start + b" "start + b < 2 ^ 31" using ab io by linarith+
  then have w1: "to_int32 (start + b) = start + b" by (rule to_int32_id)
  have "- (2 ^ 31) \<le> n - b" "n - b < 2 ^ 31" using ab io by linarith+
  then have w2: "to_int32 (n - b) = n - b" by (rule to_int32_id)
  have "- (2 ^ 63) \<le> pos + n" "pos + n < 2 ^ 63"
    using br' io(2) by (simp_all add: block_in_range_def pos_def)
  then have w3: "to_int64 (pos + n) = pos + n" by (rule to_int64_id)
  have c2: "(if b < n then info_clear info1 (to_int32 (start + b)) (to_int32 (n - b)) else Some info1)
      = Some info2"
    unfolding w1 w2 using ab io f1 by (simp add: info2_def info_clear_Some same_frame_def)
  have f2: "same_frame info info2" using f1 by (simp add: info2_def same_frame_def)
  \<comment> \<open>the copies\<close>
  define k where "k = min (numberOfChannels st) (getNumChannels (info_buffer info))"
  have "0 < getNumSamples (buffer st)" "getNumSamples (buffer st) < 2 ^ 31"
    "0 \<le> a + nextPlayPos st" "0 < b - a" "b - a \<le> getNumSamples (buffer st)"
    "k \<le> getNumChannels (buffer st)" "k \<le> getNumChannels (info_buffer info2)"
    "0 \<le> startSample info2 + a" "startSample info2 + a + (b - a) \<le> getNumSamples (info_buffer info2)"
    using co io ab len f2 by (simp_all add: N_def pos_def k_def same_frame_def start_def)
  from copy_channels_read [OF this]
  obtain info3 where c3: "copy_channels st a (a + (b - a)) k info2 = Some info3"
    and f3: "same_frame info2 info3"
    and d3: "\<And>c i. channelData (info_buffer info3) c i =
          (if c < k \<and> startSample info2 + a \<le> i \<and> i < startSample info2 + a + (b - a)
           then channelData (buffer st) c ((nextPlayPos st + (i - startSample info2)) mod getNumSamples (buffer st))
           else channelData (info_buffer info2) c i)"
    by blast
  have c3': "copy_channels st a b k info2 = Some info3" using c3 by simp
  have run: "getNextAudioBlock st info = Some (st\<lparr>nextPlayPos := nextPlayPos st + numSamples info\<rparr>, info3)"
    using ne ab c1 c2 c3' w3
    unfolding getNextAudioBlock_def n_def [symmetric] start_def [symmetric] k_def [symmetric]
      pos_def [symmetric] g
    by (simp add: isEmpty_def getStart_def getEnd_def)
  have fr: "same_frame info info3" using f2 f3 by (simp add: same_frame_def)
  have s2: "startSample info2 = start" using f2 by (simp add: same_frame_def start_def)
  have d1: "channelData (info_buffer info1) c i =
      (if c < getNumChannels (info_buffer info) \<and> start \<le> i \<and> i < start + a
       then 0 else channelData (info_buffer info) c i)" for c i
    using ab(1) by (simp add: info1_def)
  have d2: "channelData (info_buffer info2) c i =
      (if c < getNumChannels (info_buffer info) \<and> start + b \<le> i \<and> i < start + n
       then 0 else channelData (info_buffer info1) c i)" for c i
    using ab(3) f1 by (simp add: info2_def same_frame_def)
  have d3': "channelData (info_buffer info3) c i =
      (if c < k \<and> start + a \<le> i \<and> i < start + b
       then channelData (buffer st) c ((pos + (i - start)) mod N)
       else channelData (info_buffer info2) c i)" for c i
    unfolding d3 s2 pos_def N_def by simp
  have valid_iff: "(S \<le> pos + (i - start) \<and> pos + (i - start) < E) \<longleftrightarrow>
      (start + a \<le> i \<and> i < start + b)" if "start \<le> i" "i < start + n" for i
    using that hit unfolding a_def b_def max_def min_def by (simp split: if_splits) linarith
  have data: "channelData (info_buffer info3) c i =
          (if c < getNumChannels (info_buffer info) \<and> start \<le> i \<and> i < start + n
           then (if S \<le> pos + (i - start) \<and> pos + (i - start) < E
                 then (if c < numberOfChannels st
                       then channelData (buffer st) c ((pos + (i - start)) mod N)
                       else channelData (info_buffer info) c i)
                 else 0)
           else channelData (info_buffer info) c i)" for c i
  proof -
    define B where "B \<longleftrightarrow> start \<le> i \<and> i < start + n"
    define H where "H \<longleftrightarrow> start \<le> i \<and> i < start + a"
    define M where "M \<longleftrightarrow> start + a \<le> i \<and> i < start + b"
    define T where "T \<longleftrightarrow> start + b \<le> i \<and> i < start + n"
    define V where "V \<longleftrightarrow> S \<le> pos + (i - start) \<and> pos + (i - start) < E"
    have rel: "B \<longleftrightarrow> H \<or> M \<or> T" "\<not> (H \<and> M)" "\<not> (H \<and> T)" "\<not> (M \<and> T)"
      unfolding B_def H_def M_def T_def using ab by linarith+
    have vm: "V \<longleftrightarrow> M" if "B"
      using that valid_iff [of i] unfolding B_def V_def M_def by blast
    have e1: "channelData (info_buffer info1) c i =
        (if c < getNumChannels (info_buffer info) \<and> H then 0 else channelData (info_buffer info) c i)"
      unfolding H_def by (rule d1)
    have e2: "channelData (info_buffer info2) c i =
        (if c < getNumChannels (info_buffer info) \<and> T then 0 else channelData (info_buffer info1) c i)"
      unfolding T_def by (rule d2)
    have e3: "channelData (info_buffer info3) c i =
        (if c < k \<and> M then channelData (buffer st) c ((pos + (i - start)) mod N)
         else channelData (info_buffer info2) c i)"
      unfolding M_def by (rule d3')
    have "channelData (info_buffer info3) c i =
          (if c < getNumChannels (info_buffer info) \<and> B
           then (if V
                 then (if c < numberOfChannels st
                       then channelData (buffer st) c ((pos + (i - start)) mod N)
                       else channelData (info_buffer info) c i)
                 else 0)
           else channelData (info_buffer info) c i)"
      unfolding e3 e2 e1 using rel vm by (auto simp: k_def)
    then show ?thesis unfolding B_def V_def by simp
  qed
  show ?thesis
    using run fr data
    unfolding n_def pos_def S_def E_def N_def start_def by blast
qed

lemma getNextAudioBlock_state:
  assumes "getNextAudioBlock st info = Some (st', info')"
  shows "st' = st \<or> st' = st\<lparr>nextPlayPos := to_int64 (nextPlayPos st + numSamples info)\<rparr>"
proof (cases "isEmpty (getValidBufferRange st (numSamples info))")
  case True
  with assms have "st' = st" by (auto simp: getNextAudioBlock_def)
  then show ?thesis ..
next
  case False
  with assms have "st' = st\<lparr>nextPlayPos := to_int64 (nextPlayPos st + numSamples info)\<rparr>"
    by (auto simp: getNextAudioBlock_def Let_def split: Option.bind_splits)
  then show ?thesis ..
qed

section \<open>The refill\<close>

subsection \<open>The reads of a section\<close>

text \<open>One call of readBufferSection.\<close>

lemma readBufferSection_Some:
  assumes "0 \<le> off" "0 \<le> len" "off + len \<le> getNumSamples (buffer st)"
  shows "readBufferSection st start len off =
     Some (st\<lparr>source := (source st)\<lparr>sourcePosition := start + len\<rparr>,
             buffer := (buffer st)\<lparr>channelData :=
               (\<lambda>c i. if c < getNumChannels (buffer st) \<and> off \<le> i \<and> i < off + len
                      then sourceData (source st) c (start + (i - off))
                      else channelData (buffer st) c i)\<rparr>\<rparr>)"
  using assms
  by (auto simp: readBufferSection_def source_getNextAudioBlock_def source_setNextReadPosition_def
      Let_def cong: if_cong)

text \<open>The reads of one refill: where the samples of the section land.\<close>

lemma readBufferSections_refill:
  fixes st :: "'a BufferingAudioSource"
  assumes N: "0 < N" "N < 2 ^ 31" "getNumSamples (buffer st) = N"
    and s: "0 \<le> s" "0 < len" "len \<le> N"
  shows "\<exists>b. readBufferSections st (refill_segments N s (s + len)) =
        Some (st\<lparr>source := (source st)\<lparr>sourcePosition := s + len\<rparr>, buffer := b\<rparr>)
     \<and> getNumChannels b = getNumChannels (buffer st)
     \<and> getNumSamples b = N
     \<and> (\<forall>c p. c < getNumChannels (buffer st) \<and> s \<le> p \<and> p < s + len
            \<longrightarrow> channelData b c (p mod N) = sourceData (source st) c p)
     \<and> (\<forall>c i. i \<notin> (\<lambda>p. p mod N) ` {s ..< s + len}
            \<longrightarrow> channelData b c i = channelData (buffer st) c i)"
proof -
  define k where "k = s mod N"
  have k: "0 \<le> k" "k < N" using N(1) by (simp_all add: k_def)
  have segs: "refill_segments N s (s + len) =
     (if k + len < N then [(s, len, k)]
      else [(s, N - k, k), (s + (N - k), len - (N - k), 0)])"
    unfolding k_def using N(1,2) s by (rule refill_segments_closed)
  have img: "(\<lambda>p. p mod N) ` {s ..< s + len} =
      (if k + len < N then {k ..< k + len} else {k ..< N} \<union> {0 ..< k + len - N})"
    unfolding k_def using N(1) s by (intro positions_image) simp_all
  have idx: "p mod N = (if k + (p - s) < N then k + (p - s) else k + (p - s) - N)"
    if "s \<le> p" "p < s + len" for p
  proof -
    have "(s + (p - s)) mod N = (if k + (p - s) < N then k + (p - s) else k + (p - s) - N)"
      unfolding k_def using N(1) that s(3) by (intro mod_offset) simp_all
    then show ?thesis by simp
  qed
  show ?thesis
  proof (cases "k + len < N")
    case True
    define b where "b = (buffer st)\<lparr>channelData :=
               (\<lambda>c i. if c < getNumChannels (buffer st) \<and> k \<le> i \<and> i < k + len
                      then sourceData (source st) c (s + (i - k))
                      else channelData (buffer st) c i)\<rparr>"
    have "readBufferSections st (refill_segments N s (s + len)) =
        Some (st\<lparr>source := (source st)\<lparr>sourcePosition := s + len\<rparr>, buffer := b\<rparr>)"
      using True k s N by (simp add: segs readBufferSection_Some b_def)
    moreover have "getNumChannels b = getNumChannels (buffer st)" "getNumSamples b = N"
      using N(3) by (simp_all add: b_def)
    moreover have "channelData b c (p mod N) = sourceData (source st) c p"
      if "c < getNumChannels (buffer st) \<and> s \<le> p \<and> p < s + len" for c p
      using that True idx [of p] by (auto simp: b_def)
    moreover have "channelData b c i = channelData (buffer st) c i"
      if "i \<notin> (\<lambda>p. p mod N) ` {s ..< s + len}" for c i
      using that True unfolding img by (auto simp: b_def)
    ultimately show ?thesis by blast
  next
    case False
    define b1 where "b1 = (buffer st)\<lparr>channelData :=
               (\<lambda>c i. if c < getNumChannels (buffer st) \<and> k \<le> i \<and> i < k + (N - k)
                      then sourceData (source st) c (s + (i - k))
                      else channelData (buffer st) c i)\<rparr>"
    define st1 where "st1 = st\<lparr>source := (source st)\<lparr>sourcePosition := s + (N - k)\<rparr>, buffer := b1\<rparr>"
    define b where "b = (buffer st1)\<lparr>channelData :=
               (\<lambda>c i. if c < getNumChannels (buffer st1) \<and> 0 \<le> i \<and> i < 0 + (len - (N - k))
                      then sourceData (source st1) c (s + (N - k) + (i - 0))
                      else channelData (buffer st1) c i)\<rparr>"
    have r1: "readBufferSection st s (N - k) k = Some st1"
      using k N by (simp add: readBufferSection_Some st1_def b1_def)
    have "0 \<le> (0::int)" "0 \<le> len - (N - k)" "0 + (len - (N - k)) \<le> getNumSamples (buffer st1)"
      using False k s N by (simp_all add: st1_def b1_def)
    from readBufferSection_Some [OF this, of "s + (N - k)"]
    have "readBufferSection st1 (s + (N - k)) (len - (N - k)) 0 =
        Some (st1\<lparr>source := (source st1)\<lparr>sourcePosition := s + (N - k) + (len - (N - k))\<rparr>,
                  buffer := b\<rparr>)"
      unfolding b_def .
    moreover have "st1\<lparr>source := (source st1)\<lparr>sourcePosition := s + (N - k) + (len - (N - k))\<rparr>,
                  buffer := b\<rparr> = st\<lparr>source := (source st)\<lparr>sourcePosition := s + len\<rparr>, buffer := b\<rparr>"
      by (simp add: st1_def)
    ultimately have r2: "readBufferSection st1 (s + (N - k)) (len - (N - k)) 0 =
        Some (st\<lparr>source := (source st)\<lparr>sourcePosition := s + len\<rparr>, buffer := b\<rparr>)"
      by simp
    have "readBufferSections st (refill_segments N s (s + len)) =
        Some (st\<lparr>source := (source st)\<lparr>sourcePosition := s + len\<rparr>, buffer := b\<rparr>)"
      using False by (simp add: segs r1 r2)
    moreover have "getNumChannels b = getNumChannels (buffer st)" "getNumSamples b = N"
      using N(3) by (simp_all add: b_def b1_def st1_def)
    moreover have "channelData b c (p mod N) = sourceData (source st) c p"
      if "c < getNumChannels (buffer st) \<and> s \<le> p \<and> p < s + len" for c p
      using that False k s N idx [of p] by (auto simp: b_def b1_def st1_def)
    moreover have "channelData b c i = channelData (buffer st) c i"
      if "i \<notin> (\<lambda>p. p mod N) ` {s ..< s + len}" for c i
      using that False unfolding img by (auto simp: b_def b1_def st1_def)
    ultimately show ?thesis by blast
  qed
qed

lemma readBufferSections_fields:
  "readBufferSections st segs = Some st' \<Longrightarrow>
     isPrepared st' = isPrepared st \<and> isTimeSliceClient st' = isTimeSliceClient st"
proof (induction segs arbitrary: st)
  case Nil
  then show ?case by simp
next
  case (Cons seg segs)
  obtain start len off where seg: "seg = (start, len, off)" by (cases seg)
  from Cons.prems obtain st1 where one: "readBufferSection st start len off = Some st1"
    and rest: "readBufferSections st1 segs = Some st'"
    by (auto simp: seg split: option.splits)
  from one have "isPrepared st1 = isPrepared st \<and> isTimeSliceClient st1 = isTimeSliceClient st"
    by (auto simp: readBufferSection_def Let_def)
  with Cons.IH [OF rest] show ?case by simp
qed

lemma readBufferSection_keeps:
  assumes "readBufferSection st start len off = Some st'"
  shows "isPrepared st' = isPrepared st \<and> isTimeSliceClient st' = isTimeSliceClient st
     \<and> prefillBuffer st' = prefillBuffer st \<and> nextPlayPos st' = nextPlayPos st
     \<and> numberOfSamplesToBuffer st' = numberOfSamplesToBuffer st
     \<and> numberOfChannels st' = numberOfChannels st \<and> sampleRate st' = sampleRate st
     \<and> wasSourceLooping st' = wasSourceLooping st
     \<and> bufferValidStart st' = bufferValidStart st \<and> bufferValidEnd st' = bufferValidEnd st
     \<and> getNumSamples (buffer st') = getNumSamples (buffer st)
     \<and> getNumChannels (buffer st') = getNumChannels (buffer st)
     \<and> sourceLooping (source st') = sourceLooping (source st)
     \<and> sourceData (source st') = sourceData (source st)"
  using assms
  by (auto simp: readBufferSection_def source_getNextAudioBlock_def source_setNextReadPosition_def
      Let_def split: if_splits)

lemma readBufferSections_keeps:
  "readBufferSections st segs = Some st' \<Longrightarrow>
     isPrepared st' = isPrepared st \<and> isTimeSliceClient st' = isTimeSliceClient st
     \<and> prefillBuffer st' = prefillBuffer st \<and> nextPlayPos st' = nextPlayPos st
     \<and> numberOfSamplesToBuffer st' = numberOfSamplesToBuffer st
     \<and> numberOfChannels st' = numberOfChannels st \<and> sampleRate st' = sampleRate st
     \<and> wasSourceLooping st' = wasSourceLooping st
     \<and> bufferValidStart st' = bufferValidStart st \<and> bufferValidEnd st' = bufferValidEnd st
     \<and> getNumSamples (buffer st') = getNumSamples (buffer st)
     \<and> getNumChannels (buffer st') = getNumChannels (buffer st)
     \<and> sourceLooping (source st') = sourceLooping (source st)
     \<and> sourceData (source st') = sourceData (source st)"
proof (induction segs arbitrary: st)
  case Nil
  then show ?case by simp
next
  case (Cons seg segs)
  obtain start len off where seg: "seg = (start, len, off)" by (cases seg)
  from Cons.prems obtain st1 where one: "readBufferSection st start len off = Some st1"
    and rest: "readBufferSections st1 segs = Some st'"
    by (auto simp: seg split: option.splits)
  from readBufferSection_keeps [OF one] Cons.IH [OF rest] show ?case by simp
qed

subsection \<open>The first locked block\<close>

lemma state_inv_loop_check: "state_inv st \<Longrightarrow> state_inv (loop_check st)"
  by (auto simp: state_inv_def loop_check_def)

lemma loop_check_fields:
  "isPrepared (loop_check st) = isPrepared st"
  "isTimeSliceClient (loop_check st) = isTimeSliceClient st"
  "buffer (loop_check st) = buffer st"
  "nextPlayPos (loop_check st) = nextPlayPos st"
  "source (loop_check st) = source st"
  "refill_in_range (loop_check st) = refill_in_range st"
  by (simp_all add: loop_check_def refill_in_range_def)

lemma choose_section_cases:
  fixes st :: "'a BufferingAudioSource"
  defines "bvs \<equiv> max 0 (nextPlayPos st)"
  defines "N \<equiv> getNumSamples (buffer st)"
  assumes r: "refill_in_range st"
    and n: "0 \<le> getNumSamples (buffer st)" "getNumSamples (buffer st) < 2 ^ 31"
    and v: "bufferValidEnd st - bufferValidStart st \<le> getNumSamples (buffer st)"
  shows "(bvs < bufferValidStart st \<or> bufferValidEnd st \<le> bvs) \<and>
         choose_section st =
           (st\<lparr>bufferValidStart := 0, bufferValidEnd := 0\<rparr>,
            \<lparr>newBVS = bvs, newBVE = min (bvs + N - 4) (bvs + 2048),
             sectionToReadStart = bvs, sectionToReadEnd = min (bvs + N - 4) (bvs + 2048)\<rparr>)
       \<or> (bufferValidStart st \<le> bvs \<and> bvs < bufferValidEnd st
          \<and> (512 < bvs - bufferValidStart st \<or> 512 < bvs + N - 4 - bufferValidEnd st)) \<and>
         choose_section st =
           (st\<lparr>bufferValidStart := bvs,
               bufferValidEnd := min (bufferValidEnd st) (min (bvs + N - 4) (bufferValidEnd st + 2048))\<rparr>,
            \<lparr>newBVS = bvs, newBVE = min (bvs + N - 4) (bufferValidEnd st + 2048),
             sectionToReadStart = bufferValidEnd st,
             sectionToReadEnd = min (bvs + N - 4) (bufferValidEnd st + 2048)\<rparr>)
       \<or> (bufferValidStart st \<le> bvs \<and> bvs < bufferValidEnd st
          \<and> bvs - bufferValidStart st \<le> 512 \<and> bvs + N - 4 - bufferValidEnd st \<le> 512) \<and>
         choose_section st =
           (st, \<lparr>newBVS = bvs, newBVE = bvs + N - 4, sectionToReadStart = 0, sectionToReadEnd = 0\<rparr>)"
proof -
  define S where "S = bufferValidStart st"
  define E where "E = bufferValidEnd st"
  have j: "jmax 0 (nextPlayPos st) = bvs" by (simp add: bvs_def jmax_max)
  have b0: "0 \<le> bvs" by (simp add: bvs_def)
  have top: "bvs + N + 2048 < 2 ^ 63"
    using r unfolding refill_in_range_def j N_def maxChunkSize_def .
  have nn: "0 \<le> N" "N < 2 ^ 31" using n by (simp_all add: N_def)
  have vv: "E - S \<le> N" using v by (simp add: E_def S_def N_def)
  have "- (2 ^ 63) \<le> bvs + N" "bvs + N < 2 ^ 63" using b0 nn top by linarith+
  then have w1: "to_int64 (bvs + N) = bvs + N" by (rule to_int64_id)
  have "- (2 ^ 63) \<le> bvs + N - 4" "bvs + N - 4 < 2 ^ 63" using b0 nn top by linarith+
  then have w2: "to_int64 (bvs + N - 4) = bvs + N - 4" by (rule to_int64_id)
  have "- (2 ^ 63) \<le> bvs + 2048" "bvs + 2048 < 2 ^ 63" using b0 nn top by linarith+
  then have w3: "to_int64 (bvs + 2048) = bvs + 2048" by (rule to_int64_id)
  show ?thesis
  proof (cases "bvs < S \<or> bvs \<ge> E")
    case True
    then have "choose_section st =
           (st\<lparr>bufferValidStart := 0, bufferValidEnd := 0\<rparr>,
            \<lparr>newBVS = bvs, newBVE = min (bvs + N - 4) (bvs + 2048),
             sectionToReadStart = bvs, sectionToReadEnd = min (bvs + N - 4) (bvs + 2048)\<rparr>)"
      unfolding choose_section_def Let_def j N_def [symmetric] S_def [symmetric] E_def [symmetric]
        maxChunkSize_def w1 w2 w3
      by (simp add: jmin_min)
    moreover have "bvs < bufferValidStart st \<or> bufferValidEnd st \<le> bvs"
      using True by (simp add: S_def E_def)
    ultimately show ?thesis by blast
  next
    case False
    then have in_range: "S \<le> bvs" "bvs < E" by simp_all
    have "- (2 ^ 63) \<le> E + 2048" "E + 2048 < 2 ^ 63" using in_range b0 vv top by linarith+
    then have w4: "to_int64 (E + 2048) = E + 2048" by (rule to_int64_id)
    have "- (2 ^ 31) \<le> bvs - S" "bvs - S < 2 ^ 31" using in_range vv nn by linarith+
    then have "to_int32 (bvs - S) = bvs - S" by (rule to_int32_id)
    then have d1: "to_int32 (to_int64 (bvs - S)) = bvs - S" by (simp add: to_int32_to_int64)
    have "- (2 ^ 31) \<le> bvs + N - 4 - E" "bvs + N - 4 - E < 2 ^ 31" using in_range vv nn by simp_all
    then have "to_int32 (bvs + N - 4 - E) = bvs + N - 4 - E" by (rule to_int32_id)
    then have d2: "to_int32 (to_int64 (bvs + N - 4 - E)) = bvs + N - 4 - E"
      by (simp add: to_int32_to_int64)
    have "- 512 \<le> bvs - S" "bvs - S < 2 ^ 31" using in_range vv nn by linarith+
    then have a1: "c_abs (bvs - S) > 512 \<longleftrightarrow> bvs - S > 512" by (rule c_abs_small)
    have "- 512 \<le> bvs + N - 4 - E" "bvs + N - 4 - E < 2 ^ 31" using in_range vv nn by linarith+
    then have a2: "c_abs (bvs + N - 4 - E) > 512 \<longleftrightarrow> bvs + N - 4 - E > 512" by (rule c_abs_small)
    have c: "choose_section st =
       (if 512 < bvs - S \<or> 512 < bvs + N - 4 - E
        then (st\<lparr>bufferValidStart := bvs,
               bufferValidEnd := min E (min (bvs + N - 4) (E + 2048))\<rparr>,
            \<lparr>newBVS = bvs, newBVE = min (bvs + N - 4) (E + 2048),
             sectionToReadStart = E,
             sectionToReadEnd = min (bvs + N - 4) (E + 2048)\<rparr>)
        else (st, \<lparr>newBVS = bvs, newBVE = bvs + N - 4, sectionToReadStart = 0, sectionToReadEnd = 0\<rparr>))"
      unfolding choose_section_def Let_def j N_def [symmetric] S_def [symmetric] E_def [symmetric]
        maxChunkSize_def w1 w2 w3 w4 d1 d2 a1 a2
      using False by (simp add: jmin_min)
    show ?thesis
    proof (cases "512 < bvs - S \<or> 512 < bvs + N - 4 - E")
      case True
      with c in_range show ?thesis unfolding S_def E_def by simp
    next
      case False
      with c in_range show ?thesis unfolding S_def E_def by simp
    qed
  qed
qed

text \<open>What the first locked block hands on, in a prepared state.\<close>

lemma choose_section_facts:
  assumes "state_inv st" "isPrepared st" "refill_in_range st"
  shows "state_inv (fst (choose_section st))"
    and "isPrepared (fst (choose_section st))"
    and "isTimeSliceClient (fst (choose_section st)) = isTimeSliceClient st"
    and "buffer (fst (choose_section st)) = buffer st"
    and "source (fst (choose_section st)) = source st"
    and "sectionToReadStart (snd (choose_section st)) \<noteq> sectionToReadEnd (snd (choose_section st))
         \<Longrightarrow> 0 \<le> sectionToReadStart (snd (choose_section st))
           \<and> sectionToReadStart (snd (choose_section st)) < sectionToReadEnd (snd (choose_section st))
           \<and> sectionToReadEnd (snd (choose_section st)) - sectionToReadStart (snd (choose_section st))
               \<le> getNumSamples (buffer st)
           \<and> 0 \<le> newBVS (snd (choose_section st))
           \<and> newBVS (snd (choose_section st)) \<le> newBVE (snd (choose_section st))
           \<and> newBVE (snd (choose_section st)) - newBVS (snd (choose_section st))
               \<le> getNumSamples (buffer st) - 4"
    and "newBVE (snd (choose_section st)) < 2 ^ 63"
    and "nextPlayPos (fst (choose_section st)) = nextPlayPos st"
proof -
  define N where "N = getNumSamples (buffer st)"
  define S where "S = bufferValidStart st"
  define E where "E = bufferValidEnd st"
  define bvs where "bvs = max 0 (nextPlayPos st)"
  have inv: "1024 \<le> N" "N < 2 ^ 31" "0 \<le> S" "S \<le> E" "E - S \<le> N - 4" "0 \<le> bvs" "E < 2 ^ 63"
    using assms by (simp_all add: state_inv_def N_def S_def E_def bvs_def)
  have top: "bvs + N + 2048 < 2 ^ 63"
    using assms(3) by (simp add: refill_in_range_def bvs_def N_def jmax_max maxChunkSize_def)
  have "0 \<le> getNumSamples (buffer st)" "getNumSamples (buffer st) < 2 ^ 31"
    "bufferValidEnd st - bufferValidStart st \<le> getNumSamples (buffer st)"
    using inv by (simp_all add: N_def S_def E_def)
  note cs = choose_section_cases [OF assms(3) this, folded bvs_def N_def S_def E_def]
  from cs consider
      (cold) "choose_section st =
        (st\<lparr>bufferValidStart := 0, bufferValidEnd := 0\<rparr>,
         \<lparr>newBVS = bvs, newBVE = min (bvs + N - 4) (bvs + 2048),
          sectionToReadStart = bvs, sectionToReadEnd = min (bvs + N - 4) (bvs + 2048)\<rparr>)"
    | (drift) "S \<le> bvs" "bvs < E" "choose_section st =
        (st\<lparr>bufferValidStart := bvs,
            bufferValidEnd := min E (min (bvs + N - 4) (E + 2048))\<rparr>,
         \<lparr>newBVS = bvs, newBVE = min (bvs + N - 4) (E + 2048),
          sectionToReadStart = E, sectionToReadEnd = min (bvs + N - 4) (E + 2048)\<rparr>)"
    | (steady) "choose_section st =
        (st, \<lparr>newBVS = bvs, newBVE = bvs + N - 4, sectionToReadStart = 0, sectionToReadEnd = 0\<rparr>)"
    by blast
  then have "state_inv (fst (choose_section st))
    \<and> isPrepared (fst (choose_section st))
    \<and> isTimeSliceClient (fst (choose_section st)) = isTimeSliceClient st
    \<and> buffer (fst (choose_section st)) = buffer st
    \<and> source (fst (choose_section st)) = source st
    \<and> (sectionToReadStart (snd (choose_section st)) \<noteq> sectionToReadEnd (snd (choose_section st))
         \<longrightarrow> 0 \<le> sectionToReadStart (snd (choose_section st))
           \<and> sectionToReadStart (snd (choose_section st)) < sectionToReadEnd (snd (choose_section st))
           \<and> sectionToReadEnd (snd (choose_section st)) - sectionToReadStart (snd (choose_section st))
               \<le> N
           \<and> 0 \<le> newBVS (snd (choose_section st))
           \<and> newBVS (snd (choose_section st)) \<le> newBVE (snd (choose_section st))
           \<and> newBVE (snd (choose_section st)) - newBVS (snd (choose_section st))
               \<le> N - 4)
    \<and> newBVE (snd (choose_section st)) < 2 ^ 63
    \<and> nextPlayPos (fst (choose_section st)) = nextPlayPos st"
  proof cases
    case cold
    show ?thesis unfolding cold using assms(1,2) inv top
      by (simp add: state_inv_def min_def N_def)
  next
    case drift
    show ?thesis unfolding drift(3) using assms(1,2) inv top drift(1,2)
      by (simp add: state_inv_def min_def N_def [symmetric] S_def [symmetric] E_def [symmetric])
  next
    case steady
    show ?thesis unfolding steady using assms(1,2) inv top by simp
  qed
  then show "state_inv (fst (choose_section st))"
    and "isPrepared (fst (choose_section st))"
    and "isTimeSliceClient (fst (choose_section st)) = isTimeSliceClient st"
    and "buffer (fst (choose_section st)) = buffer st"
    and "source (fst (choose_section st)) = source st"
    and "sectionToReadStart (snd (choose_section st)) \<noteq> sectionToReadEnd (snd (choose_section st))
         \<Longrightarrow> 0 \<le> sectionToReadStart (snd (choose_section st))
           \<and> sectionToReadStart (snd (choose_section st)) < sectionToReadEnd (snd (choose_section st))
           \<and> sectionToReadEnd (snd (choose_section st)) - sectionToReadStart (snd (choose_section st))
               \<le> getNumSamples (buffer st)
           \<and> 0 \<le> newBVS (snd (choose_section st))
           \<and> newBVS (snd (choose_section st)) \<le> newBVE (snd (choose_section st))
           \<and> newBVE (snd (choose_section st)) - newBVS (snd (choose_section st))
               \<le> getNumSamples (buffer st) - 4"
    and "newBVE (snd (choose_section st)) < 2 ^ 63"
    and "nextPlayPos (fst (choose_section st)) = nextPlayPos st"
    unfolding N_def by blast+
qed

lemma plan_refill_facts:
  assumes "state_inv st" "isPrepared st" "refill_in_range st"
  shows "state_inv (fst (plan_refill st))"
    and "isPrepared (fst (plan_refill st))"
    and "isTimeSliceClient (fst (plan_refill st)) = isTimeSliceClient st"
    and "buffer (fst (plan_refill st)) = buffer st"
    and "source (fst (plan_refill st)) = source st"
    and "sectionToReadStart (snd (plan_refill st)) \<noteq> sectionToReadEnd (snd (plan_refill st))
         \<Longrightarrow> 0 \<le> sectionToReadStart (snd (plan_refill st))
           \<and> sectionToReadStart (snd (plan_refill st)) < sectionToReadEnd (snd (plan_refill st))
           \<and> sectionToReadEnd (snd (plan_refill st)) - sectionToReadStart (snd (plan_refill st))
               \<le> getNumSamples (buffer st)
           \<and> 0 \<le> newBVS (snd (plan_refill st))
           \<and> newBVS (snd (plan_refill st)) \<le> newBVE (snd (plan_refill st))
           \<and> newBVE (snd (plan_refill st)) - newBVS (snd (plan_refill st))
               \<le> getNumSamples (buffer st) - 4"
    and "newBVE (snd (plan_refill st)) < 2 ^ 63"
    and "nextPlayPos (fst (plan_refill st)) = nextPlayPos st"
  using choose_section_facts [of "loop_check st"] state_inv_loop_check [OF assms(1)] assms(2,3)
  unfolding plan_refill_def by (simp_all add: loop_check_fields)

text \<open>The cold path: what the first locked block selects, and what the call then does.\<close>

lemma cold_plan_wrapped:
  assumes "wasSourceLooping st \<noteq> isLooping st
     \<or> max 0 (nextPlayPos st) < bufferValidStart st
     \<or> bufferValidEnd st \<le> max 0 (nextPlayPos st)"
  shows "plan_refill st =
     ((loop_check st)\<lparr>bufferValidStart := 0, bufferValidEnd := 0\<rparr>,
      \<lparr>newBVS = max 0 (nextPlayPos st),
       newBVE = min (to_int64 (to_int64 (max 0 (nextPlayPos st) + getNumSamples (buffer st)) - 4))
                    (to_int64 (max 0 (nextPlayPos st) + 2048)),
       sectionToReadStart = max 0 (nextPlayPos st),
       sectionToReadEnd = min (to_int64 (to_int64 (max 0 (nextPlayPos st) + getNumSamples (buffer st)) - 4))
                              (to_int64 (max 0 (nextPlayPos st) + 2048))\<rparr>)"
proof -
  have "max 0 (nextPlayPos st) < bufferValidStart (loop_check st)
     \<or> bufferValidEnd (loop_check st) \<le> max 0 (nextPlayPos st)"
    using assms by (auto simp: loop_check_def)
  then show ?thesis
    unfolding plan_refill_def choose_section_def Let_def
    by (simp add: loop_check_fields jmax_max jmin_min maxChunkSize_def)
qed

lemma cold_plan:
  assumes "wasSourceLooping st \<noteq> isLooping st
     \<or> max 0 (nextPlayPos st) < bufferValidStart st
     \<or> bufferValidEnd st \<le> max 0 (nextPlayPos st)"
    and r: "refill_in_range st" and n: "0 \<le> getNumSamples (buffer st)"
  shows "plan_refill st =
     ((loop_check st)\<lparr>bufferValidStart := 0, bufferValidEnd := 0\<rparr>,
      \<lparr>newBVS = max 0 (nextPlayPos st),
       newBVE = min (max 0 (nextPlayPos st) + getNumSamples (buffer st) - 4)
                    (max 0 (nextPlayPos st) + 2048),
       sectionToReadStart = max 0 (nextPlayPos st),
       sectionToReadEnd = min (max 0 (nextPlayPos st) + getNumSamples (buffer st) - 4)
                              (max 0 (nextPlayPos st) + 2048)\<rparr>)"
proof -
  define bvs where "bvs = max 0 (nextPlayPos st)"
  define N where "N = getNumSamples (buffer st)"
  have b0: "0 \<le> bvs" by (simp add: bvs_def)
  have top: "bvs + N + 2048 < 2 ^ 63"
    using r by (simp add: refill_in_range_def bvs_def N_def jmax_max maxChunkSize_def)
  have nn: "0 \<le> N" using n by (simp add: N_def)
  have "- (2 ^ 63) \<le> bvs + N" "bvs + N < 2 ^ 63" using b0 nn top by linarith+
  then have w1: "to_int64 (bvs + N) = bvs + N" by (rule to_int64_id)
  have "- (2 ^ 63) \<le> bvs + N - 4" "bvs + N - 4 < 2 ^ 63" using b0 nn top by linarith+
  then have w2: "to_int64 (bvs + N - 4) = bvs + N - 4" by (rule to_int64_id)
  have "- (2 ^ 63) \<le> bvs + 2048" "bvs + 2048 < 2 ^ 63" using b0 nn top by linarith+
  then have w3: "to_int64 (bvs + 2048) = bvs + 2048" by (rule to_int64_id)
  show ?thesis
    unfolding cold_plan_wrapped [OF assms(1)] bvs_def [symmetric] N_def [symmetric] w1 w2 w3 ..
qed

subsection \<open>The whole call\<close>

text \<open>The reads and the commit of a refill, from the state that the first locked block left.\<close>

lemma commit_after_reads:
  fixes st1 :: "'a BufferingAudioSource"
  assumes inv: "state_inv st1" "isPrepared st1"
    and p: "0 \<le> sectionToReadStart p" "sectionToReadStart p < sectionToReadEnd p"
      "sectionToReadEnd p - sectionToReadStart p \<le> getNumSamples (buffer st1)"
      "0 \<le> newBVS p" "newBVS p \<le> newBVE p" "newBVE p - newBVS p \<le> getNumSamples (buffer st1) - 4"
      "newBVE p < 2 ^ 63"
  shows "\<exists>st2. readBufferSections st1
           (refill_segments (getNumSamples (buffer st1)) (sectionToReadStart p) (sectionToReadEnd p))
         = Some st2
     \<and> nextPlayPos st2 = nextPlayPos st1
     \<and> (\<forall>pos. (- (2 ^ 63) \<le> pos \<and> pos < 2 ^ 63
                  \<longrightarrow> state_inv (commit_range (st2\<lparr>nextPlayPos := pos\<rparr>) p))
            \<and> isPrepared (commit_range (st2\<lparr>nextPlayPos := pos\<rparr>) p)
            \<and> bufferValidStart (commit_range (st2\<lparr>nextPlayPos := pos\<rparr>) p) = newBVS p
            \<and> bufferValidEnd (commit_range (st2\<lparr>nextPlayPos := pos\<rparr>) p) = newBVE p
            \<and> getNumSamples (buffer (commit_range (st2\<lparr>nextPlayPos := pos\<rparr>) p))
                = getNumSamples (buffer st1))"
proof -
  define N where "N = getNumSamples (buffer st1)"
  define s where "s = sectionToReadStart p"
  define len where "len = sectionToReadEnd p - sectionToReadStart p"
  have e: "sectionToReadEnd p = s + len" by (simp add: s_def len_def)
  have N: "0 < N" "N < 2 ^ 31" "getNumSamples (buffer st1) = N"
    using inv by (simp_all add: state_inv_def N_def)
  have sl: "0 \<le> s" "0 < len" "len \<le> N" using p by (simp_all add: s_def len_def N_def)
  from readBufferSections_refill [OF N sl]
  obtain b where run: "readBufferSections st1 (refill_segments N s (s + len)) =
        Some (st1\<lparr>source := (source st1)\<lparr>sourcePosition := s + len\<rparr>, buffer := b\<rparr>)"
    and b: "getNumChannels b = getNumChannels (buffer st1)" "getNumSamples b = N"
    by blast
  have "state_inv (commit_range (st1\<lparr>source := (source st1)\<lparr>sourcePosition := s + len\<rparr>,
      buffer := b, nextPlayPos := pos\<rparr>) p)" if "- (2 ^ 63) \<le> pos \<and> pos < 2 ^ 63" for pos
    using inv p b that unfolding N_def by (simp add: state_inv_def commit_range_def)
  then show ?thesis
    unfolding N_def [symmetric] s_def [symmetric] e run using inv(2) b
    by (simp add: commit_range_def)
qed

lemma readNextBufferChunk_prepared:
  fixes st :: "'a BufferingAudioSource"
  assumes "state_inv st" "isPrepared st" "refill_in_range st"
  shows "\<exists>didWork st'. readNextBufferChunk st = Some (didWork, st')
     \<and> state_inv st' \<and> isPrepared st'
     \<and> getNumSamples (buffer st') = getNumSamples (buffer st)
     \<and> nextPlayPos st' = nextPlayPos st
     \<and> (didWork \<longleftrightarrow> sectionToReadStart (snd (plan_refill st)) \<noteq> sectionToReadEnd (snd (plan_refill st)))
     \<and> (didWork \<longrightarrow> bufferValidStart st' = newBVS (snd (plan_refill st))
                    \<and> bufferValidEnd st' = newBVE (snd (plan_refill st)))
     \<and> (\<not> didWork \<longrightarrow> st' = fst (plan_refill st))"
proof -
  obtain st1 p where pl: "plan_refill st = (st1, p)" by (cases "plan_refill st")
  note f = plan_refill_facts [OF assms, unfolded pl fst_conv snd_conv]
  have N: "0 < getNumSamples (buffer st1)" using f(1,2) by (simp add: state_inv_def)
  show ?thesis
  proof (cases "sectionToReadStart p = sectionToReadEnd p")
    case True
    then have "readNextBufferChunk st = Some (False, st1)"
      by (simp add: readNextBufferChunk_def pl)
    then show ?thesis using True f(1-5,8) by (auto simp: pl)
  next
    case False
    note q = f(6) [OF False]
    have "0 \<le> sectionToReadStart p" "sectionToReadStart p < sectionToReadEnd p"
      "sectionToReadEnd p - sectionToReadStart p \<le> getNumSamples (buffer st1)"
      "0 \<le> newBVS p" "newBVS p \<le> newBVE p" "newBVE p - newBVS p \<le> getNumSamples (buffer st1) - 4"
      "newBVE p < 2 ^ 63"
      using q f(4,7) by simp_all
    from commit_after_reads [OF f(1,2) this]
    obtain st2 where run: "readBufferSections st1
           (refill_segments (getNumSamples (buffer st1)) (sectionToReadStart p) (sectionToReadEnd p))
         = Some st2"
      and cur: "nextPlayPos st2 = nextPlayPos st1"
      and c: "\<And>pos. (- (2 ^ 63) \<le> pos \<and> pos < 2 ^ 63
                  \<longrightarrow> state_inv (commit_range (st2\<lparr>nextPlayPos := pos\<rparr>) p))
            \<and> isPrepared (commit_range (st2\<lparr>nextPlayPos := pos\<rparr>) p)
            \<and> bufferValidStart (commit_range (st2\<lparr>nextPlayPos := pos\<rparr>) p) = newBVS p
            \<and> bufferValidEnd (commit_range (st2\<lparr>nextPlayPos := pos\<rparr>) p) = newBVE p
            \<and> getNumSamples (buffer (commit_range (st2\<lparr>nextPlayPos := pos\<rparr>) p))
                = getNumSamples (buffer st1)"
      by blast
    have rng: "- (2 ^ 63) \<le> nextPlayPos st2 \<and> nextPlayPos st2 < 2 ^ 63"
      using cur f(8) assms(1) by (simp add: state_inv_def)
    have "st2\<lparr>nextPlayPos := nextPlayPos st2\<rparr> = st2" by simp
    with c [of "nextPlayPos st2"] rng have c': "state_inv (commit_range st2 p)
            \<and> isPrepared (commit_range st2 p)
            \<and> bufferValidStart (commit_range st2 p) = newBVS p
            \<and> bufferValidEnd (commit_range st2 p) = newBVE p
            \<and> getNumSamples (buffer (commit_range st2 p)) = getNumSamples (buffer st1)"
      by simp
    have cur': "nextPlayPos (commit_range st2 p) = nextPlayPos st"
      using cur f(8) by (simp add: commit_range_def)
    have "readNextBufferChunk st = Some (True, commit_range st2 p)"
      using False N run by (simp add: readNextBufferChunk_def pl)
    then show ?thesis using False c' cur' f(4) by (auto simp: pl)
  qed
qed

lemma cold_run:
  fixes st :: "'a BufferingAudioSource"
  assumes "wasSourceLooping st \<noteq> isLooping st
     \<or> max 0 (nextPlayPos st) < bufferValidStart st
     \<or> bufferValidEnd st \<le> max 0 (nextPlayPos st)"
    and N: "4 < getNumSamples (buffer st)" "getNumSamples (buffer st) < 2 ^ 31"
    and r: "refill_in_range st"
  shows "\<exists>st'. readNextBufferChunk st = Some (True, st')
     \<and> st' = (loop_check st)\<lparr>source := source st', buffer := buffer st',
            bufferValidStart := bufferValidStart st', bufferValidEnd := bufferValidEnd st'\<rparr>
     \<and> sourceLooping (source st') = sourceLooping (source st)
     \<and> bufferValidStart st' = max 0 (nextPlayPos st)
     \<and> bufferValidEnd st' = min (max 0 (nextPlayPos st) + getNumSamples (buffer st) - 4)
                                (max 0 (nextPlayPos st) + 2048)
     \<and> getNumSamples (buffer st') = getNumSamples (buffer st)
     \<and> (\<forall>c p. c < getNumChannels (buffer st) \<and> bufferValidStart st' \<le> p \<and> p < bufferValidEnd st'
            \<longrightarrow> channelData (buffer st') c (p mod getNumSamples (buffer st))
                 = sourceData (source st) c p)"
proof -
  define N where "N = getNumSamples (buffer st)"
  define s where "s = max 0 (nextPlayPos st)"
  define len where "len = min (N - 4) 2048"
  define st1 where "st1 = (loop_check st)\<lparr>bufferValidStart := 0, bufferValidEnd := 0\<rparr>"
  define p where "p = \<lparr>newBVS = s, newBVE = s + len, sectionToReadStart = s, sectionToReadEnd = s + len\<rparr>"
  have e: "min (s + N - 4) (s + 2048) = s + len" by (simp add: len_def min_def)
  have "0 \<le> getNumSamples (buffer st)" using N by simp
  note cp = cold_plan [OF assms(1) r this]
  have pl: "plan_refill st = (st1, p)"
    using cp unfolding N_def [symmetric] s_def [symmetric] e
    by (simp add: st1_def p_def)
  have b1: "buffer st1 = buffer st" "source st1 = source st"
    by (simp_all add: st1_def loop_check_fields)
  have n: "0 < N" "N < 2 ^ 31" "getNumSamples (buffer st1) = N"
    using N by (simp_all add: N_def b1)
  have sl: "0 \<le> s" "0 < len" "len \<le> N" using N by (simp_all add: s_def len_def N_def)
  from readBufferSections_refill [OF n sl]
  obtain b where run: "readBufferSections st1 (refill_segments N s (s + len)) =
        Some (st1\<lparr>source := (source st1)\<lparr>sourcePosition := s + len\<rparr>, buffer := b\<rparr>)"
    and b: "getNumSamples b = N"
      "\<And>c q. c < getNumChannels (buffer st1) \<and> s \<le> q \<and> q < s + len
            \<Longrightarrow> channelData b c (q mod N) = sourceData (source st1) c q"
    by blast
  have "readNextBufferChunk st = Some (True,
      commit_range (st1\<lparr>source := (source st1)\<lparr>sourcePosition := s + len\<rparr>, buffer := b\<rparr>) p)"
    using sl n run by (simp add: readNextBufferChunk_def pl p_def)
  then show ?thesis
    unfolding N_def [symmetric] s_def [symmetric] e using b
    by (simp add: commit_range_def p_def b1 st1_def loop_check_fields)
qed

subsection \<open>The cache holds the samples of the source\<close>

text \<open>
  A refill keeps the data model of the spec, whichever of its three cases it takes, as
  long as the source produces the same samples at the same positions.
\<close>

lemma cache_holds_after_section:
  fixes st :: "'a BufferingAudioSource"
  assumes inv: "state_inv st" "isPrepared st" and held: "cache_holds st"
    and r: "refill_in_range st"
  shows "cache_holds (fst (choose_section st))"
proof -
  have "0 \<le> getNumSamples (buffer st)" "getNumSamples (buffer st) < 2 ^ 31"
    "bufferValidEnd st - bufferValidStart st \<le> getNumSamples (buffer st)"
    using inv by (simp_all add: state_inv_def)
  from choose_section_cases [OF r this] held
  show ?thesis by (elim disjE conjE) (auto simp: cache_holds_def)
qed

lemma cache_holds_after_refill:
  fixes st :: "'a BufferingAudioSource"
  assumes inv: "state_inv st" "isPrepared st" and held: "cache_holds st"
    and r: "refill_in_range st"
  shows "\<exists>didWork st'. readNextBufferChunk st = Some (didWork, st') \<and> cache_holds st'"
proof -
  define st0 where "st0 = loop_check st"
  have inv0: "state_inv st0" "isPrepared st0"
    using inv by (simp_all add: st0_def state_inv_loop_check loop_check_fields)
  have held0: "cache_holds st0"
    using held by (auto simp: st0_def loop_check_def cache_holds_def)
  define N where "N = getNumSamples (buffer st0)"
  define bvs where "bvs = max 0 (nextPlayPos st0)"
  define S where "S = bufferValidStart st0"
  define E where "E = bufferValidEnd st0"
  have r0: "refill_in_range st0" using r by (simp add: st0_def loop_check_fields)
  have f: "1024 \<le> N" "N < 2 ^ 31" "0 \<le> S" "S \<le> E" "E - S \<le> N - 4"
    "getNumChannels (buffer st0) = numberOfChannels st0" "0 \<le> bvs"
    using inv0 by (simp_all add: state_inv_def N_def S_def E_def bvs_def)
  have shape0: "0 \<le> getNumSamples (buffer st0)" "getNumSamples (buffer st0) < 2 ^ 31"
    "bufferValidEnd st0 - bufferValidStart st0 \<le> getNumSamples (buffer st0)"
    using f by (simp_all add: N_def S_def E_def)
  obtain st1 p where pl: "choose_section st0 = (st1, p)" by (cases "choose_section st0")
  have pr: "plan_refill st = (st1, p)" by (simp add: plan_refill_def st0_def [symmetric] pl)
  have h1: "cache_holds st1" using cache_holds_after_section [OF inv0 held0 r0] by (simp add: pl)
  show ?thesis
  proof (cases "sectionToReadStart p = sectionToReadEnd p")
    case True
    then have "readNextBufferChunk st = Some (False, st1)"
      by (simp add: readNextBufferChunk_def pr)
    with h1 show ?thesis by blast
  next
    case False
    define s where "s = sectionToReadStart p"
    define len where "len = sectionToReadEnd p - sectionToReadStart p"
    have held0': "channelData (buffer st0) c (q mod N) = sourceData (source st0) c q"
      if "c < numberOfChannels st0" "S \<le> q" "q < E" for c q
      using held0 that unfolding cache_holds_def S_def E_def N_def by simp
    have "buffer st1 = buffer st0 \<and> source st1 = source st0
      \<and> numberOfChannels st1 = numberOfChannels st0
      \<and> 0 \<le> s \<and> 0 < len \<and> len \<le> N
      \<and> 0 \<le> newBVS p \<and> newBVE p - newBVS p \<le> N - 4
      \<and> newBVE p = s + len
      \<and> newBVS p \<le> s
      \<and> (\<forall>c q. c < numberOfChannels st0 \<and> newBVS p \<le> q \<and> q < s
          \<longrightarrow> channelData (buffer st0) c (q mod N) = sourceData (source st0) c q)"
    proof -
      from choose_section_cases [OF r0 shape0]
      consider (cold) "bvs < S \<or> E \<le> bvs"
          "st1 = st0\<lparr>bufferValidStart := 0, bufferValidEnd := 0\<rparr>"
          "p = \<lparr>newBVS = bvs, newBVE = min (bvs + N - 4) (bvs + 2048),
             sectionToReadStart = bvs, sectionToReadEnd = min (bvs + N - 4) (bvs + 2048)\<rparr>"
        | (drift) "S \<le> bvs" "bvs < E"
          "st1 = st0\<lparr>bufferValidStart := bvs,
               bufferValidEnd := min E (min (bvs + N - 4) (E + 2048))\<rparr>"
          "p = \<lparr>newBVS = bvs, newBVE = min (bvs + N - 4) (E + 2048),
             sectionToReadStart = E, sectionToReadEnd = min (bvs + N - 4) (E + 2048)\<rparr>"
        | (steady) "p = \<lparr>newBVS = bvs, newBVE = bvs + N - 4, sectionToReadStart = 0, sectionToReadEnd = 0\<rparr>"
        unfolding pl bvs_def [symmetric] N_def [symmetric] S_def [symmetric] E_def [symmetric]
        by auto
      then show ?thesis
      proof cases
        case cold
        show ?thesis unfolding s_def len_def cold(2,3) using f by auto
      next
        case drift
        have "E < min (bvs + N - 4) (E + 2048)"
          using False unfolding drift(4) using f drift(1,2) by simp
        then show ?thesis unfolding s_def len_def drift(3,4) using f drift(1,2) held0'
          by auto
      next
        case steady
        with False show ?thesis by simp
      qed
    qed
    then have shape: "buffer st1 = buffer st0" "source st1 = source st0"
      "numberOfChannels st1 = numberOfChannels st0"
      "0 \<le> s" "0 < len" "len \<le> N"
      "0 \<le> newBVS p" "newBVE p - newBVS p \<le> N - 4"
      "newBVE p = s + len"
      "newBVS p \<le> s"
      "\<forall>c q. c < numberOfChannels st0 \<and> newBVS p \<le> q \<and> q < s
          \<longrightarrow> channelData (buffer st0) c (q mod N) = sourceData (source st0) c q"
      by blast+
    have n: "0 < N" "N < 2 ^ 31" "getNumSamples (buffer st1) = N"
      using f by (simp_all add: shape N_def)
    from readBufferSections_refill [OF n shape(4,5,6)]
    obtain b where run: "readBufferSections st1 (refill_segments N s (s + len)) =
        Some (st1\<lparr>source := (source st1)\<lparr>sourcePosition := s + len\<rparr>, buffer := b\<rparr>)"
      and b: "getNumChannels b = getNumChannels (buffer st1)" "getNumSamples b = N"
        "\<And>c q. c < getNumChannels (buffer st1) \<and> s \<le> q \<and> q < s + len
            \<Longrightarrow> channelData b c (q mod N) = sourceData (source st1) c q"
        "\<And>c i. i \<notin> (\<lambda>q. q mod N) ` {s ..< s + len}
            \<Longrightarrow> channelData b c i = channelData (buffer st1) c i"
      by blast
    define st' where "st' = commit_range
      (st1\<lparr>source := (source st1)\<lparr>sourcePosition := s + len\<rparr>, buffer := b\<rparr>) p"
    have e: "sectionToReadEnd p = s + len" by (simp add: s_def len_def)
    have "readNextBufferChunk st = Some (True, st')"
      using False n run unfolding st'_def
      by (simp add: readNextBufferChunk_def pr s_def [symmetric] e)
    moreover have "cache_holds st'"
      unfolding cache_holds_def
    proof (intro ballI)
      fix c q
      assume c: "c \<in> {..< numberOfChannels st'}"
        and q: "q \<in> {bufferValidStart st' ..< bufferValidEnd st'}"
      have c': "c < numberOfChannels st0" using c by (simp add: st'_def commit_range_def shape)
      have q': "newBVS p \<le> q" "q < s + len"
        using q by (simp_all add: st'_def commit_range_def shape)
      have "channelData b c (q mod N) = sourceData (source st0) c q"
      proof (cases "s \<le> q")
        case True
        then show ?thesis using b(3) [of c q] c' q' f(6) by (simp add: shape)
      next
        case False
        have "q mod N \<notin> (\<lambda>q. q mod N) ` {s ..< s + len}"
        proof
          assume "q mod N \<in> (\<lambda>q. q mod N) ` {s ..< s + len}"
          then obtain r where r: "s \<le> r" "r < s + len" "q mod N = r mod N" by auto
          have "q < r" "r - q < N" using False r q' shape(8,9) by linarith+
          then have "q mod N \<noteq> r mod N" by (rule mod_distinct)
          with r(3) show False by simp
        qed
        then have "channelData b c (q mod N) = channelData (buffer st0) c (q mod N)"
          using b(4) by (simp add: shape)
        also have "\<dots> = sourceData (source st0) c q"
          using shape(11) c' q'(1) False by simp
        finally show ?thesis .
      qed
      then show "channelData (buffer st') c (q mod getNumSamples (buffer st')) = sourceData (source st') c q"
        using b(2) by (simp add: st'_def commit_range_def shape)
    qed
    ultimately show ?thesis by blast
  qed
qed

section \<open>Reachable states\<close>

subsection \<open>What a refill leaves as it was\<close>

lemma choose_section_keeps:
  "isPrepared (fst (choose_section st)) = isPrepared st
   \<and> isTimeSliceClient (fst (choose_section st)) = isTimeSliceClient st
   \<and> prefillBuffer (fst (choose_section st)) = prefillBuffer st
   \<and> nextPlayPos (fst (choose_section st)) = nextPlayPos st
   \<and> numberOfSamplesToBuffer (fst (choose_section st)) = numberOfSamplesToBuffer st
   \<and> numberOfChannels (fst (choose_section st)) = numberOfChannels st
   \<and> sampleRate (fst (choose_section st)) = sampleRate st
   \<and> wasSourceLooping (fst (choose_section st)) = wasSourceLooping st
   \<and> buffer (fst (choose_section st)) = buffer st
   \<and> source (fst (choose_section st)) = source st"
  by (simp add: choose_section_def Let_def)

lemma plan_refill_keeps:
  "isPrepared (fst (plan_refill st)) = isPrepared st
   \<and> isTimeSliceClient (fst (plan_refill st)) = isTimeSliceClient st
   \<and> prefillBuffer (fst (plan_refill st)) = prefillBuffer st
   \<and> nextPlayPos (fst (plan_refill st)) = nextPlayPos st
   \<and> numberOfSamplesToBuffer (fst (plan_refill st)) = numberOfSamplesToBuffer st
   \<and> numberOfChannels (fst (plan_refill st)) = numberOfChannels st
   \<and> sampleRate (fst (plan_refill st)) = sampleRate st
   \<and> wasSourceLooping (fst (plan_refill st)) = isLooping st
   \<and> buffer (fst (plan_refill st)) = buffer st
   \<and> source (fst (plan_refill st)) = source st"
  unfolding plan_refill_def using choose_section_keeps [of "loop_check st"]
  by (simp add: loop_check_def)

lemma readNextBufferChunk_keeps:
  assumes "readNextBufferChunk st = Some (didWork, st')"
  shows "isPrepared st' = isPrepared st \<and> isTimeSliceClient st' = isTimeSliceClient st
     \<and> prefillBuffer st' = prefillBuffer st \<and> nextPlayPos st' = nextPlayPos st
     \<and> numberOfSamplesToBuffer st' = numberOfSamplesToBuffer st
     \<and> numberOfChannels st' = numberOfChannels st \<and> sampleRate st' = sampleRate st
     \<and> wasSourceLooping st' = isLooping st
     \<and> getNumSamples (buffer st') = getNumSamples (buffer st)
     \<and> getNumChannels (buffer st') = getNumChannels (buffer st)
     \<and> isLooping st' = isLooping st
     \<and> sourceData (source st') = sourceData (source st)"
proof -
  obtain st1 p where pl: "plan_refill st = (st1, p)" by (cases "plan_refill st")
  note k1 = plan_refill_keeps [of st, unfolded pl fst_conv]
  show ?thesis
  proof (cases "sectionToReadStart p = sectionToReadEnd p")
    case True
    with assms have "st' = st1" by (simp add: readNextBufferChunk_def pl)
    with k1 show ?thesis by (simp add: isLooping_def)
  next
    case False
    with assms obtain st2 where run: "readBufferSections st1
           (refill_segments (getNumSamples (buffer st1)) (sectionToReadStart p) (sectionToReadEnd p))
         = Some st2" and r: "st' = commit_range st2 p"
      by (auto simp: readNextBufferChunk_def pl split: if_splits)
    from readBufferSections_keeps [OF run] k1 show ?thesis
      by (simp add: r commit_range_def isLooping_def)
  qed
qed

subsection \<open>The invariant\<close>

lemma to_int32_range: "- (2 ^ 31) \<le> to_int32 x" "to_int32 x < 2 ^ 31"
proof -
  have "0 \<le> (x + 2 ^ 31) mod 2 ^ 32" "(x + 2 ^ 31) mod 2 ^ 32 < (2 ^ 32 :: int)"
    by simp_all
  then show "- (2 ^ 31) \<le> to_int32 x" "to_int32 x < 2 ^ 31"
    unfolding to_int32_def by simp_all
qed

lemma prepare_reset_inv:
  assumes "state_inv st"
  shows "state_inv (prepare_reset st (jmax (to_int32 (samplesPerBlockExpected * 2)) (numberOfSamplesToBuffer st))
           newSampleRate)"
proof -
  define n where "n = jmax (to_int32 (samplesPerBlockExpected * 2)) (numberOfSamplesToBuffer st)"
  have "numberOfSamplesToBuffer st \<le> n" "n < 2 ^ 31"
    using assms to_int32_range(2) [of "samplesPerBlockExpected * 2"]
    by (simp_all add: n_def jmax_def state_inv_def)
  then show ?thesis
    unfolding n_def [symmetric] using assms
    by (simp add: prepare_reset_def state_inv_def AudioBuffer_setSize_def AudioBuffer_clearAll_def)
qed

lemma reachable_state_inv: "reachable st \<Longrightarrow> state_inv st"
proof (induction rule: reachable.induct)
  case (constructed bufferSizeSamples s numChannels prefill)
  then show ?case
    by (simp add: BufferingAudioSource_new_def state_inv_def jmax_def)
next
  case (waiting st bufferSizeNeeded samplesPerBlockExpected newSampleRate)
  then show ?case by (simp add: prepare_reset_inv)
next
  case (released st)
  then show ?case by (simp add: releaseResources_def state_inv_def)
next
  case (seeked st newPosition)
  then show ?case by (simp add: setNextReadPosition_def state_inv_def)
next
  case (played st info st' info')
  from getNextAudioBlock_state [OF played.hyps(2)] played.IH
    to_int64_range [of "nextPlayPos st + numSamples info"]
  show ?case by (auto simp: state_inv_def)
next
  case (source_changed st s)
  then show ?case by (simp add: state_inv_def)
next
  case (loop_checked st)
  then show ?case by (simp add: state_inv_loop_check)
next
  case (planned st)
  then have "isPrepared st" by (simp add: state_inv_def)
  with planned.IH show ?case using planned.hyps(3) by (rule plan_refill_facts(1))
next
  case (committed st st1 p st2 pos)
  then have pr: "isPrepared st" by (simp add: state_inv_def)
  note f = plan_refill_facts [OF committed.IH pr committed.hyps(3), unfolded committed.hyps(4) fst_conv snd_conv]
  note q = f(6) [OF committed.hyps(5)]
  have "0 \<le> sectionToReadStart p" "sectionToReadStart p < sectionToReadEnd p"
      "sectionToReadEnd p - sectionToReadStart p \<le> getNumSamples (buffer st1)"
      "0 \<le> newBVS p" "newBVS p \<le> newBVE p" "newBVE p - newBVS p \<le> getNumSamples (buffer st1) - 4"
      "newBVE p < 2 ^ 63"
    using q f(4,7) by simp_all
  from commit_after_reads [OF f(1,2) this] committed.hyps(6,7,8)
  show ?case by auto
qed

lemma state_inv_cache_ok: "state_inv st \<Longrightarrow> isPrepared st \<Longrightarrow> cache_ok st"
  by (simp add: state_inv_def cache_ok_def)

lemma reachable_refilled:
  assumes "reachable st" "isTimeSliceClient st" "refill_in_range st"
    and "readNextBufferChunk st = Some (didWork, st')"
  shows "reachable st'"
proof -
  obtain st1 p where pl: "plan_refill st = (st1, p)" by (cases "plan_refill st")
  show ?thesis
  proof (cases "sectionToReadStart p = sectionToReadEnd p")
    case True
    with assms(4) have "st' = fst (plan_refill st)" by (simp add: readNextBufferChunk_def pl)
    with assms(1,2,3) show ?thesis by (simp add: reachable.planned)
  next
    case False
    with assms(4) obtain st2 where run: "readBufferSections st1
           (refill_segments (getNumSamples (buffer st1)) (sectionToReadStart p) (sectionToReadEnd p))
         = Some st2" and r: "st' = commit_range st2 p"
      by (auto simp: readNextBufferChunk_def pl split: if_splits)
    have "nextPlayPos st2 = nextPlayPos st"
      using readBufferSections_keeps [OF run] plan_refill_keeps [of st] by (simp add: pl)
    then have rng: "- (2 ^ 63) \<le> nextPlayPos st2" "nextPlayPos st2 < 2 ^ 63"
      using reachable_state_inv [OF assms(1)] by (simp_all add: state_inv_def)
    have "st' = commit_range (st2\<lparr>nextPlayPos := nextPlayPos st2\<rparr>) p" using r by simp
    with reachable.committed [OF assms(1,2,3) pl False run rng]
    show ?thesis by simp
  qed
qed

subsection \<open>The time slices during the wait of prepareToPlay\<close>

lemma run_slices_keeps:
  "run_slices k st = Some st' \<Longrightarrow>
     isPrepared st' = isPrepared st \<and> isTimeSliceClient st' = isTimeSliceClient st
     \<and> prefillBuffer st' = prefillBuffer st \<and> nextPlayPos st' = nextPlayPos st
     \<and> numberOfSamplesToBuffer st' = numberOfSamplesToBuffer st
     \<and> numberOfChannels st' = numberOfChannels st \<and> sampleRate st' = sampleRate st
     \<and> getNumSamples (buffer st') = getNumSamples (buffer st)
     \<and> getNumChannels (buffer st') = getNumChannels (buffer st)"
proof (induction k arbitrary: st)
  case 0
  then show ?case by simp
next
  case (Suc k)
  from Suc.prems obtain t st1 where one: "useTimeSlice st = Some (t, st1)"
    and rest: "run_slices k st1 = Some st'"
    by (auto split: option.splits)
  from one obtain didWork where "readNextBufferChunk st = Some (didWork, st1)"
    by (auto simp: useTimeSlice_def)
  from readNextBufferChunk_keeps [OF this] Suc.IH [OF rest] show ?case by simp
qed

lemma prefill_wait_keeps:
  "prefill_wait r slices st = Some st' \<Longrightarrow>
     isPrepared st' = isPrepared st \<and> isTimeSliceClient st' = isTimeSliceClient st
     \<and> prefillBuffer st' = prefillBuffer st \<and> nextPlayPos st' = nextPlayPos st
     \<and> numberOfSamplesToBuffer st' = numberOfSamplesToBuffer st
     \<and> numberOfChannels st' = numberOfChannels st \<and> sampleRate st' = sampleRate st
     \<and> getNumSamples (buffer st') = getNumSamples (buffer st)
     \<and> getNumChannels (buffer st') = getNumChannels (buffer st)"
proof (induction slices arbitrary: st)
  case Nil
  then show ?case by simp
next
  case (Cons k slices)
  from Cons.prems obtain st1 where one: "run_slices k st = Some st1"
    and rest: "st' = st1 \<or> prefill_wait r slices st1 = Some st'"
    by (auto split: option.splits if_splits)
  note k1 = run_slices_keeps [OF one]
  from rest show ?case
  proof
    assume "st' = st1"
    with k1 show ?thesis by simp
  next
    assume "prefill_wait r slices st1 = Some st'"
    from Cons.IH [OF this] k1 show ?thesis by simp
  qed
qed

lemma run_slices_reachable:
  assumes "reachable st" "isTimeSliceClient st" "refill_in_range st"
  shows "\<exists>st'. run_slices k st = Some st' \<and> reachable st'"
  using assms
proof (induction k arbitrary: st)
  case 0
  then show ?case by simp
next
  case (Suc k)
  have inv: "state_inv st" using Suc.prems(1) by (rule reachable_state_inv)
  then have pr: "isPrepared st" using Suc.prems(2) by (simp add: state_inv_def)
  from readNextBufferChunk_prepared [OF inv pr Suc.prems(3)]
  obtain didWork st1 where run: "readNextBufferChunk st = Some (didWork, st1)" by blast
  note k1 = readNextBufferChunk_keeps [OF run]
  have r1: "reachable st1" using Suc.prems run by (rule reachable_refilled)
  have c1: "isTimeSliceClient st1" using k1 Suc.prems(2) by simp
  have i1: "refill_in_range st1" using k1 Suc.prems(3) by (simp add: refill_in_range_def)
  from Suc.IH [OF r1 c1 i1] obtain st' where "run_slices k st1 = Some st'" "reachable st'"
    by blast
  then show ?case using run by (auto simp: useTimeSlice_def)
qed

lemma prefill_wait_reachable:
  assumes "reachable st" "isTimeSliceClient st" "refill_in_range st"
    and "prefill_wait r slices st = Some st'"
  shows "reachable st'"
  using assms
proof (induction slices arbitrary: st)
  case Nil
  then show ?case by simp
next
  case (Cons k slices)
  from run_slices_reachable [OF Cons.prems(1,2,3), of k]
  obtain st1 where one: "run_slices k st = Some st1" and r1: "reachable st1" by blast
  note k1 = run_slices_keeps [OF one]
  have c1: "isTimeSliceClient st1" using k1 Cons.prems(2) by simp
  have i1: "refill_in_range st1" using k1 Cons.prems(3) by (simp add: refill_in_range_def)
  from Cons.prems(4) one have "st' = st1 \<or> prefill_wait r slices st1 = Some st'"
    by (auto split: if_splits)
  then show ?case
  proof
    assume "st' = st1"
    with r1 show ?thesis by simp
  next
    assume "prefill_wait r slices st1 = Some st'"
    with r1 c1 i1 show ?thesis by (rule Cons.IH)
  qed
qed

text \<open>A sleep of the wait without the prefill ends the call.\<close>

lemma prefill_wait_off:
  assumes "\<not> prefillBuffer st" "run_slices k st = Some st1"
  shows "prefill_wait r (k # slices) st = Some st1"
  using assms run_slices_keeps [OF assms(2)] by simp

text \<open>
  The wait with the prefill ends. From the state of \<open>prepare_reset\<close> the first refill
  takes the cold path; each refill after it keeps the start of the valid range at the
  cursor and moves its end by a chunk, until the end is within 512 samples of the end of
  the window. The threshold of line 83 is at most half the capacity.
\<close>

lemma refill_step_filling:
  fixes st :: "'a BufferingAudioSource"
  assumes inv: "state_inv st" "isPrepared st" "refill_in_range st"
    and fl: "wasSourceLooping st = isLooping st"
    and s: "bufferValidStart st = max 0 (nextPlayPos st)"
      "max 0 (nextPlayPos st) < bufferValidEnd st"
  shows "\<exists>didWork st'. readNextBufferChunk st = Some (didWork, st')
     \<and> state_inv st' \<and> isPrepared st'
     \<and> wasSourceLooping st' = isLooping st'
     \<and> nextPlayPos st' = nextPlayPos st
     \<and> getNumSamples (buffer st') = getNumSamples (buffer st)
     \<and> bufferValidStart st' = max 0 (nextPlayPos st)
     \<and> bufferValidEnd st' =
         (if 512 < max 0 (nextPlayPos st) + getNumSamples (buffer st) - 4 - bufferValidEnd st
          then min (max 0 (nextPlayPos st) + getNumSamples (buffer st) - 4) (bufferValidEnd st + 2048)
          else bufferValidEnd st)"
proof -
  define bvs where "bvs = max 0 (nextPlayPos st)"
  define N where "N = getNumSamples (buffer st)"
  define E where "E = bufferValidEnd st"
  have lc: "loop_check st = st" using fl by (simp add: loop_check_def)
  have pl: "plan_refill st = choose_section st" by (simp add: plan_refill_def lc)
  have shape: "0 \<le> getNumSamples (buffer st)" "getNumSamples (buffer st) < 2 ^ 31"
    "bufferValidEnd st - bufferValidStart st \<le> getNumSamples (buffer st)"
    using inv by (simp_all add: state_inv_def)
  note cs = choose_section_cases [OF inv(3) shape, folded bvs_def N_def E_def, unfolded s(1) [folded bvs_def]]
  from readNextBufferChunk_prepared [OF inv]
  obtain didWork st' where run: "readNextBufferChunk st = Some (didWork, st')"
    and f: "state_inv st'" "isPrepared st'"
      "getNumSamples (buffer st') = getNumSamples (buffer st)"
      "nextPlayPos st' = nextPlayPos st"
      "didWork \<longleftrightarrow> sectionToReadStart (snd (plan_refill st)) \<noteq> sectionToReadEnd (snd (plan_refill st))"
      "didWork \<longrightarrow> bufferValidStart st' = newBVS (snd (plan_refill st))
                    \<and> bufferValidEnd st' = newBVE (snd (plan_refill st))"
      "\<not> didWork \<longrightarrow> st' = fst (plan_refill st)"
    by blast
  have k: "wasSourceLooping st' = isLooping st'"
    using readNextBufferChunk_keeps [OF run] by simp
  have lt: "bvs < E" using s(2) by (simp add: bvs_def E_def)
  have "bufferValidStart st' = bvs
     \<and> bufferValidEnd st' = (if 512 < bvs + N - 4 - E then min (bvs + N - 4) (E + 2048) else E)"
  proof (cases "512 < bvs + N - 4 - E")
    case True
    with cs lt have c: "choose_section st =
           (st\<lparr>bufferValidStart := bvs,
               bufferValidEnd := min E (min (bvs + N - 4) (E + 2048))\<rparr>,
            \<lparr>newBVS = bvs, newBVE = min (bvs + N - 4) (E + 2048),
             sectionToReadStart = E,
             sectionToReadEnd = min (bvs + N - 4) (E + 2048)\<rparr>)"
      by auto
    have "E \<noteq> min (bvs + N - 4) (E + 2048)" using True by (simp add: min_def)
    then have didWork using f(5) by (simp add: pl c)
    with f(6) True show ?thesis by (simp add: pl c)
  next
    case False
    with cs lt have c: "choose_section st =
           (st, \<lparr>newBVS = bvs, newBVE = bvs + N - 4, sectionToReadStart = 0, sectionToReadEnd = 0\<rparr>)"
      by auto
    then have "\<not> didWork" using f(5) by (simp add: pl)
    with f(7) have "st' = st" by (simp add: pl c)
    with False s(1) show ?thesis by (simp add: bvs_def E_def)
  qed
  then show ?thesis
    using run f(1-4) k unfolding bvs_def N_def E_def by blast
qed


lemma run_slices_filling:
  fixes st :: "'a BufferingAudioSource"
  assumes inv: "state_inv st" "isPrepared st" "refill_in_range st"
    and fl: "wasSourceLooping st = isLooping st"
    and s: "bufferValidStart st = max 0 (nextPlayPos st)"
    and lo: "max 0 (nextPlayPos st) + min (getNumSamples (buffer st) - 4) 2048 \<le> bufferValidEnd st"
      "max 0 (nextPlayPos st) + min (getNumSamples (buffer st) - 516) (2048 * int j) \<le> bufferValidEnd st"
  shows "\<exists>st'. run_slices k st = Some st'
     \<and> state_inv st' \<and> isPrepared st'
     \<and> getNumSamples (buffer st') = getNumSamples (buffer st)
     \<and> bufferValidStart st' = max 0 (nextPlayPos st)
     \<and> max 0 (nextPlayPos st) + min (getNumSamples (buffer st) - 4) 2048 \<le> bufferValidEnd st'
     \<and> max 0 (nextPlayPos st) + min (getNumSamples (buffer st) - 516) (2048 * int (j + k))
           \<le> bufferValidEnd st'"
  using assms
proof (induction k arbitrary: st j)
  case 0
  then show ?case by simp
next
  case (Suc k)
  define bvs where "bvs = max 0 (nextPlayPos st)"
  define N where "N = getNumSamples (buffer st)"
  define E where "E = bufferValidEnd st"
  have n: "1024 \<le> N" using Suc.prems(1,2) by (simp add: state_inv_def N_def)
  have lo: "bvs + min (N - 4) 2048 \<le> E" "bvs + min (N - 516) (2048 * int j) \<le> E"
    using Suc.prems(6,7) by (simp_all add: bvs_def N_def E_def)
  have top: "E \<le> bvs + N - 4"
    using Suc.prems(1,2,5) by (simp add: state_inv_def bvs_def N_def E_def)
  have "0 < min (N - 4) 2048" using n by simp
  then have "bvs < E" using lo(1) by linarith
  then have lt: "max 0 (nextPlayPos st) < bufferValidEnd st"
    unfolding bvs_def E_def .
  from refill_step_filling [OF Suc.prems(1,2,3,4,5) lt]
  obtain didWork st1 where run: "readNextBufferChunk st = Some (didWork, st1)"
    and f: "state_inv st1" "isPrepared st1" "wasSourceLooping st1 = isLooping st1"
      "nextPlayPos st1 = nextPlayPos st" "getNumSamples (buffer st1) = N"
      "bufferValidStart st1 = bvs"
      "bufferValidEnd st1 = (if 512 < bvs + N - 4 - E then min (bvs + N - 4) (E + 2048) else E)"
    unfolding bvs_def N_def E_def by blast
  have r1: "refill_in_range st1"
    using Suc.prems(3) f(4,5) by (simp add: refill_in_range_def N_def)
  have s1: "bufferValidStart st1 = max 0 (nextPlayPos st1)" using f(4,6) by (simp add: bvs_def)
  have a1: "max 0 (nextPlayPos st1) + min (getNumSamples (buffer st1) - 4) 2048 \<le> bufferValidEnd st1"
    unfolding f(4,5,7) bvs_def [symmetric] using lo(1) top by (simp add: min_def split: if_splits)
  have a2: "max 0 (nextPlayPos st1) + min (getNumSamples (buffer st1) - 516) (2048 * int (Suc j))
      \<le> bufferValidEnd st1"
    unfolding f(4,5,7) bvs_def [symmetric] using lo(2) top by (simp add: min_def split: if_splits)
  from Suc.IH [OF f(1,2) r1 f(3) s1 a1 a2]
  obtain st' where rest: "run_slices k st1 = Some st'"
    and g: "state_inv st'" "isPrepared st'" "getNumSamples (buffer st') = getNumSamples (buffer st1)"
      "bufferValidStart st' = max 0 (nextPlayPos st1)"
      "max 0 (nextPlayPos st1) + min (getNumSamples (buffer st1) - 4) 2048 \<le> bufferValidEnd st'"
      "max 0 (nextPlayPos st1) + min (getNumSamples (buffer st1) - 516) (2048 * int (Suc j + k))
           \<le> bufferValidEnd st'"
    by blast
  have "run_slices (Suc k) st = Some st'"
    using run rest by (simp add: useTimeSlice_def)
  then show ?case using g unfolding f(4,5) N_def by simp
qed


lemma c_div_two: "0 \<le> n \<Longrightarrow> c_div n 2 = n div 2"
  by (cases "n = 0") (simp_all add: c_div_def)

lemma prefill_wait_ends:
  fixes st :: "'a::zero BufferingAudioSource"
  assumes inv: "state_inv st"
    and n: "n = jmax (to_int32 (samplesPerBlockExpected * 2)) (numberOfSamplesToBuffer st)"
    and r: "refill_in_range (prepare_reset st n newSampleRate)"
  shows "\<exists>st'. prefill_wait newSampleRate ((nat (n div 4096) + 1) # slices)
                 (prepare_reset st n newSampleRate) = Some st'"
proof -
  define st0 where "st0 = prepare_reset st n newSampleRate"
  define bvs where "bvs = max 0 (nextPlayPos st0)"
  define m where "m = nat (n div 4096)"
  have i0: "state_inv st0" unfolding st0_def n using inv by (rule prepare_reset_inv)
  have r0: "refill_in_range st0" using r by (simp add: st0_def)
  have f0: "isPrepared st0" "bufferValidStart st0 = 0" "bufferValidEnd st0 = 0"
    "getNumSamples (buffer st0) = n"
    by (simp_all add: st0_def prepare_reset_def AudioBuffer_setSize_def AudioBuffer_clearAll_def)
  have N: "1024 \<le> n" "n < 2 ^ 31" using i0 f0 by (simp_all add: state_inv_def)
  have cold: "wasSourceLooping st0 \<noteq> isLooping st0
     \<or> max 0 (nextPlayPos st0) < bufferValidStart st0
     \<or> bufferValidEnd st0 \<le> max 0 (nextPlayPos st0)"
    by (simp add: f0)
  have "4 < getNumSamples (buffer st0)" "getNumSamples (buffer st0) < 2 ^ 31"
    using N by (simp_all add: f0)
  from cold_run [OF cold this r0]
  obtain st1 where run1: "readNextBufferChunk st0 = Some (True, st1)"
    and c1: "bufferValidStart st1 = bvs" "bufferValidEnd st1 = min (bvs + n - 4) (bvs + 2048)"
    unfolding bvs_def f0 by blast
  from readNextBufferChunk_prepared [OF i0 f0(1) r0] run1
  have p1: "state_inv st1" "isPrepared st1" "getNumSamples (buffer st1) = n"
    "nextPlayPos st1 = nextPlayPos st0"
    by (auto simp: f0)
  have k1: "wasSourceLooping st1 = isLooping st1"
    using readNextBufferChunk_keeps [OF run1] by simp
  have r1: "refill_in_range st1" using r0 p1 by (simp add: refill_in_range_def f0)
  have s1: "bufferValidStart st1 = max 0 (nextPlayPos st1)" using c1 p1 by (simp add: bvs_def)
  have a1: "max 0 (nextPlayPos st1) + min (getNumSamples (buffer st1) - 4) 2048 \<le> bufferValidEnd st1"
    unfolding p1 c1 bvs_def [symmetric] by (simp add: min_def)
  have a2: "max 0 (nextPlayPos st1) + min (getNumSamples (buffer st1) - 516) (2048 * int 1)
      \<le> bufferValidEnd st1"
    unfolding p1 c1 bvs_def [symmetric] by (simp add: min_def)
  from run_slices_filling [OF p1(1,2) r1 k1 s1 a1 a2, of m]
  obtain st' where rest: "run_slices m st1 = Some st'"
    and g: "state_inv st'" "isPrepared st'" "getNumSamples (buffer st') = n"
      "bufferValidStart st' = bvs"
      "bvs + min (n - 4) 2048 \<le> bufferValidEnd st'"
      "bvs + min (n - 516) (2048 * int (1 + m)) \<le> bufferValidEnd st'"
    unfolding p1 bvs_def [symmetric] by blast
  have run: "run_slices (nat (n div 4096) + 1) st0 = Some st'"
    using run1 rest by (simp add: useTimeSlice_def m_def)
  have q: "n < 4096 * (n div 4096) + 4096"
    using pos_mod_bound [of 4096 n] mult_div_mod_eq [of 4096 n] by linarith
  have h: "2 * (n div 2) \<le> n" using N by simp
  have im: "int m = n div 4096" using N by (simp add: m_def)
  have enough: "n div 2 \<le> bufferValidEnd st' - bufferValidStart st'"
  proof (cases "n \<le> 2052")
    case True
    then have "min (n - 4) 2048 = n - 4" by simp
    with g(4,5) have "n - 4 \<le> bufferValidEnd st' - bufferValidStart st'" by simp
    with h N show ?thesis by linarith
  next
    case False
    have "n div 2 \<le> n - 516" using h False by linarith
    moreover have "n div 2 \<le> 2048 * int (1 + m)" using h q im by simp
    ultimately have "n div 2 \<le> min (n - 516) (2048 * int (1 + m))" by simp
    with g(4,6) show ?thesis by linarith
  qed
  have top: "bufferValidEnd st' - bufferValidStart st' \<le> n"
    using g(1,2,3) by (simp add: state_inv_def)
  have "- (2 ^ 63) \<le> bufferValidEnd st' - bufferValidStart st'"
    "bufferValidEnd st' - bufferValidStart st' < 2 ^ 63"
    using enough top N by simp_all
  then have w: "to_int64 (bufferValidEnd st' - bufferValidStart st')
      = bufferValidEnd st' - bufferValidStart st'"
    by (rule to_int64_id)
  have "jmin (c_div (double_to_int newSampleRate) 4) (c_div (getNumSamples (buffer st')) 2) \<le> n div 2"
    using N by (simp add: g(3) c_div_two jmin_min)
  with enough have "\<not> (to_int64 (bufferValidEnd st' - bufferValidStart st')
      < jmin (c_div (double_to_int newSampleRate) 4) (c_div (getNumSamples (buffer st')) 2))"
    unfolding w by linarith
  then have "prefill_wait newSampleRate ((nat (n div 4096) + 1) # slices) st0 = Some st'"
    using run by simp
  then show ?thesis unfolding st0_def by blast
qed

lemma prepareToPlay_reachable:
  assumes "reachable st"
    and "refill_in_range
           (prepare_reset st (jmax (to_int32 (samplesPerBlockExpected * 2)) (numberOfSamplesToBuffer st))
              newSampleRate)"
    and "prepareToPlay st samplesPerBlockExpected newSampleRate slices = Some st'"
  shows "reachable st'" and "isPrepared st'"
proof -
  define n where "n = jmax (to_int32 (samplesPerBlockExpected * 2)) (numberOfSamplesToBuffer st)"
  define st0 where "st0 = prepare_reset st n newSampleRate"
  have "reachable st' \<and> isPrepared st'"
  proof (cases "newSampleRate \<noteq> sampleRate st \<or> n \<noteq> getNumSamples (buffer st) \<or> \<not> isPrepared st")
    case True
    then have w: "prefill_wait newSampleRate slices st0 = Some st'"
      using assms(3) unfolding prepareToPlay_def Let_def n_def [symmetric] st0_def by simp
    have r0: "reachable st0" unfolding st0_def using assms(1) n_def True by (rule reachable.waiting)
    have c: "isTimeSliceClient st0" "isPrepared st0"
      by (simp_all add: st0_def prepare_reset_def)
    have i0: "refill_in_range st0" using assms(2) by (simp add: st0_def n_def)
    have "reachable st'" using r0 c(1) i0 w by (rule prefill_wait_reachable)
    moreover have "isPrepared st'" using prefill_wait_keeps [OF w] c by simp
    ultimately show ?thesis by simp
  next
    case False
    then have "st' = st" "isPrepared st"
      using assms(3) unfolding prepareToPlay_def Let_def n_def [symmetric] by simp_all
    with assms(1) show ?thesis by simp
  qed
  then show "reachable st'" and "isPrepared st'" by simp_all
qed

subsection \<open>The scenario is what the code computes\<close>

lemma example_fresh_is_prepared:
  "prepareToPlay (BufferingAudioSource_new example_source 4096 2 False) 512 44100 [0]
     = Some example_fresh"
  by (simp add: BufferingAudioSource_new_def prepareToPlay_def prepare_reset_def example_fresh_def
      jmax_def to_int32_def AudioBuffer_setSize_def AudioBuffer_clearAll_def)

lemma example_filled_is_refilled:
  "readNextBufferChunk example_fresh = Some (True, example_filled)"
  by (simp add: readNextBufferChunk_def plan_refill_def loop_check_def choose_section_def
      example_fresh_def example_filled_def example_source_def isLooping_def jmax_def jmin_def maxChunkSize_def
      refill_segments_def to_int32_def to_int64_def c_rem_def readBufferSection_def
      source_getNextAudioBlock_def source_setNextReadPosition_def commit_range_def Let_def fun_eq_iff)

lemma example_filled_ok: "cache_ok example_filled \<and> cache_holds example_filled"
  by (simp add: cache_ok_def cache_holds_def example_filled_def example_fresh_def example_source_def)

lemma example_block_ok: "info_ok example_block"
  by (simp add: info_ok_def example_block_def)

lemma example_in_range:
  "refill_in_range example_fresh" "refill_in_range example_filled"
  "block_in_range example_fresh 512" "block_in_range example_filled 512"
  by (simp_all add: refill_in_range_def block_in_range_def example_filled_def example_fresh_def
      jmax_def maxChunkSize_def)

lemma reachable_example_fresh: "reachable example_fresh"
proof -
  let ?st0 = "BufferingAudioSource_new example_source 4096 2 False :: int BufferingAudioSource"
  have "reachable ?st0" by (rule reachable.constructed) simp_all
  then have "reachable (prepare_reset ?st0 4096 44100)"
    by (rule reachable.waiting [where samplesPerBlockExpected = 512])
      (simp_all add: BufferingAudioSource_new_def jmax_def to_int32_def)
  moreover have "prepare_reset ?st0 4096 44100 = example_fresh"
    by (simp add: BufferingAudioSource_new_def prepare_reset_def example_fresh_def jmax_def
        AudioBuffer_setSize_def AudioBuffer_clearAll_def)
  ultimately show ?thesis by simp
qed

lemma reachable_example_filled: "reachable example_filled"
  using reachable_example_fresh _ example_in_range(1) example_filled_is_refilled
  by (rule reachable_refilled) (simp add: example_fresh_def)

text \<open>The states with the cursor at the last position.\<close>

lemma example_far_half_is_refilled:
  "readNextBufferChunk (setNextReadPosition example_fresh 2147481648) = Some (True, example_far_half)"
  by (simp add: readNextBufferChunk_def plan_refill_def loop_check_def choose_section_def
      example_fresh_def example_far_half_def example_source_def isLooping_def jmax_def jmin_def
      maxChunkSize_def setNextReadPosition_def
      refill_segments_def to_int32_def to_int64_def c_rem_def readBufferSection_def
      source_getNextAudioBlock_def source_setNextReadPosition_def commit_range_def Let_def fun_eq_iff)

lemma example_far_is_refilled:
  "readNextBufferChunk example_far_half = Some (True, setNextReadPosition example_far 2147481648)"
  by (simp add: readNextBufferChunk_def plan_refill_def loop_check_def choose_section_def
      example_fresh_def example_far_half_def example_far_def example_source_def isLooping_def
      jmax_def jmin_def maxChunkSize_def setNextReadPosition_def c_abs_def
      refill_segments_def to_int32_def to_int64_def c_rem_def readBufferSection_def
      source_getNextAudioBlock_def source_setNextReadPosition_def commit_range_def Let_def fun_eq_iff)

lemma reachable_example_far: "reachable example_far"
proof -
  have "reachable (setNextReadPosition example_fresh 2147481648)"
    using reachable_example_fresh by (rule reachable.seeked) simp_all
  then have "reachable example_far_half"
    using _ _ example_far_half_is_refilled
    by (rule reachable_refilled)
      (simp_all add: setNextReadPosition_def example_fresh_def refill_in_range_def jmax_def maxChunkSize_def)
  then have "reachable (setNextReadPosition example_far 2147481648)"
    using _ _ example_far_is_refilled
    by (rule reachable_refilled)
      (simp_all add: example_far_half_def example_fresh_def refill_in_range_def jmax_def maxChunkSize_def)
  then have "reachable (setNextReadPosition (setNextReadPosition example_far 2147481648) last_position)"
    by (rule reachable.seeked) (simp_all add: last_position_def)
  moreover have "setNextReadPosition (setNextReadPosition example_far 2147481648) last_position = example_far"
    by (simp add: setNextReadPosition_def example_far_def)
  ultimately show ?thesis by simp
qed

lemma reachable_example_top: "reachable example_top"
  unfolding example_top_def using reachable_example_filled
  by (rule reachable.seeked) (simp_all add: last_position_def)

lemma example_far_fields:
  "nextPlayPos example_far = 9223372036854775807" "bufferValidStart example_far = 2147481648"
  "bufferValidEnd example_far = 2147485740" "numberOfChannels example_far = 2"
  "getNumSamples (buffer example_far) = 4096" "getNumChannels (buffer example_far) = 2"
  by (simp_all add: example_far_def example_fresh_def last_position_def)

lemma example_block_one_fields:
  "numSamples example_block_one = 1" "startSample example_block_one = 0"
  "getNumChannels (info_buffer example_block_one) = 2"
  "getNumSamples (info_buffer example_block_one) = 512"
  by (simp_all add: example_block_one_def)

lemma example_far_range: "getValidBufferRange example_far 1 = (- 2147481555, 2147481649)"
  unfolding getValidBufferRange_def Let_def example_far_fields
  apply (simp add: jlimit_def)
  apply (simp add: to_int64_def)
  apply (simp add: to_int32_def)
  apply (simp add: Range_new_def jmax_def)
  done

lemma example_far_segments:
  "read_segments 4096 9223372036854775807 (- 2147481555) 2147481649
     = [(- 2147481555, 2092, 4294963204)]"
  apply (simp add: read_segments_def Let_def c_rem_def)
  apply (simp add: to_int32_def)
  done

lemma example_top_plan:
  "plan_refill example_top =
     (example_top\<lparr>bufferValidStart := 0, bufferValidEnd := 0\<rparr>,
      \<lparr>newBVS = 9223372036854775807, newBVE = - 9223372036854773761,
       sectionToReadStart = 9223372036854775807, sectionToReadEnd = - 9223372036854773761\<rparr>)"
  by (simp add: plan_refill_def loop_check_def choose_section_def
      example_top_def setNextReadPosition_def last_position_def
      example_fresh_def example_filled_def example_source_def isLooping_def jmax_def jmin_def
      maxChunkSize_def to_int64_def Let_def)

lemma example_top_refill:
  "map_option fst (readNextBufferChunk example_top) = Some True"
  "map_option (bufferValidStart \<circ> snd) (readNextBufferChunk example_top) = Some 9223372036854775807"
  "map_option (bufferValidEnd \<circ> snd) (readNextBufferChunk example_top) = Some (- 9223372036854773761)"
  "map_option (getNumSamples \<circ> buffer \<circ> snd) (readNextBufferChunk example_top) = Some 4096"
  unfolding readNextBufferChunk_def example_top_plan
  by (simp_all add: example_top_def setNextReadPosition_def last_position_def
      example_fresh_def example_filled_def example_source_def
      refill_segments_def to_int32_def c_rem_def readBufferSection_def
      source_getNextAudioBlock_def source_setNextReadPosition_def commit_range_def Let_def)

section \<open>The claims\<close>

subsection \<open>The cursor after a read\<close>

text \<open>
  C1. The claim: after every call of \<^verbatim>\<open>getNextAudioBlock\<close> with \<open>n\<close> samples, in every
  cache state including a total cache miss, \<open>nextPlayPos\<close> is its value before the call
  plus \<open>n\<close>.

  What the code does, in a well-formed state for a well-formed request whose block ends
  at a position that an \<^verbatim>\<open>int64\<close> holds: the call returns; when the block meets the valid
  range, \<open>nextPlayPos\<close> is its value before the call plus \<open>n\<close>; on a total cache miss
  (the block does not meet the valid range) the call clears the block on every channel of
  the destination and returns at line 109, before the increment of line 157, so that
  \<open>nextPlayPos\<close> is unchanged. Nothing else of the state changes.
\<close>

theorem cursor_after_read:
  assumes "cache_ok st" and "info_ok info" and "block_in_range st (numSamples info)"
  shows "\<exists>info'. getNextAudioBlock st info =
       Some (st\<lparr>nextPlayPos :=
               (if {nextPlayPos st ..< nextPlayPos st + numSamples info}
                     \<inter> {bufferValidStart st ..< bufferValidEnd st} = {}
                then nextPlayPos st
                else nextPlayPos st + numSamples info)\<rparr>, info')
     \<and> same_frame info info'
     \<and> ({nextPlayPos st ..< nextPlayPos st + numSamples info}
            \<inter> {bufferValidStart st ..< bufferValidEnd st} = {}
          \<longrightarrow> (\<forall>c i. channelData (info_buffer info') c i =
                 (if c < getNumChannels (info_buffer info)
                     \<and> startSample info \<le> i \<and> i < startSample info + numSamples info
                  then 0 else channelData (info_buffer info) c i)))"
proof -
  have r: "bufferValidStart st \<le> bufferValidEnd st" "0 \<le> numSamples info" "numSamples info < 2 ^ 31"
    using assms by (simp_all add: cache_ok_def info_ok_def)
  note e = getValidBufferRange_empty_iff [OF r assms(3)]
  show ?thesis
  proof (cases "isEmpty (getValidBufferRange st (numSamples info))")
    case True
    with getNextAudioBlock_miss [OF assms(2) True] e show ?thesis
      by (simp add: same_frame_def)
  next
    case False
    with getNextAudioBlock_hit [OF assms(1,2) False assms(3)] e show ?thesis by auto
  qed
qed

text \<open>A block of 512 samples from position 0: after the first refill, and before it.\<close>

theorem cursor_after_read_witness:
  "map_option (nextPlayPos \<circ> fst) (getNextAudioBlock example_filled example_block) = Some 512
   \<and> map_option (nextPlayPos \<circ> fst) (getNextAudioBlock example_fresh example_block) = Some 0
   \<and> map_option (sample 1 511 \<circ> snd) (getNextAudioBlock example_fresh example_block) = Some 0"
proof -
  have f: "cache_ok example_fresh"
    by (simp add: cache_ok_def example_fresh_def)
  have b: "block_in_range example_filled (numSamples example_block)"
    "block_in_range example_fresh (numSamples example_block)"
    using example_in_range(3,4) by (simp_all add: example_block_def)
  have hit: "{nextPlayPos example_filled ..< nextPlayPos example_filled + numSamples example_block}
          \<inter> {bufferValidStart example_filled ..< bufferValidEnd example_filled} \<noteq> {}"
    by (simp add: example_filled_def example_fresh_def example_block_def)
  have miss: "{nextPlayPos example_fresh ..< nextPlayPos example_fresh + numSamples example_block}
          \<inter> {bufferValidStart example_fresh ..< bufferValidEnd example_fresh} = {}"
    by (simp add: example_fresh_def)
  have v: "nextPlayPos example_filled = 0" "numSamples example_block = 512" "nextPlayPos example_fresh = 0"
    "startSample example_block = 0" "getNumChannels (info_buffer example_block) = 2"
    by (simp_all add: example_filled_def example_fresh_def example_block_def)
  from cursor_after_read [OF conjunct1 [OF example_filled_ok] example_block_ok b(1)] hit v
  have one: "map_option (nextPlayPos \<circ> fst) (getNextAudioBlock example_filled example_block) = Some 512"
    by auto
  from cursor_after_read [OF f example_block_ok b(2)] miss
  obtain info' where run: "getNextAudioBlock example_fresh example_block =
       Some (example_fresh\<lparr>nextPlayPos := nextPlayPos example_fresh\<rparr>, info')"
    and d: "\<And>c i. channelData (info_buffer info') c i =
                 (if c < getNumChannels (info_buffer example_block)
                     \<and> startSample example_block \<le> i
                     \<and> i < startSample example_block + numSamples example_block
                  then 0 else channelData (info_buffer example_block) c i)"
    by auto
  have "sample 1 511 info' = 0" unfolding sample_def d v by simp
  then show ?thesis using one run v by simp
qed

text \<open>
  The first request of the scenario, before any refill: a total cache miss. The cursor
  is 0 before the call and 0 after it, not 512.
\<close>

theorem cursor_after_read_counterexample:
  "map_option (nextPlayPos \<circ> fst) (getNextAudioBlock example_fresh example_block) = Some 0
   \<and> nextPlayPos example_fresh + numSamples example_block = 512"
proof -
  have "isEmpty (getValidBufferRange example_fresh (numSamples example_block))"
    by (rule getValidBufferRange_empty)
      (simp_all add: example_fresh_def example_block_def block_in_range_def)
  from getNextAudioBlock_miss [OF example_block_ok this]
  show ?thesis by (simp add: example_fresh_def example_block_def)
qed

subsection \<open>The wraparound mapping\<close>

text \<open>
  C2. The claim: for every capacity \<open>C > 0\<close> and every absolute range \<open>[s, s + len)\<close> with
  \<open>0 \<le> len \<le> C\<close>, the mapping of both paths gives one segment when the range does not
  cross the physical end and two when it does, the lengths sum to \<open>len\<close>, the segments do
  not overlap and every index is in \<open>[0, C)\<close>.

  What the code does, for a capacity \<open>0 < C < 2^31\<close>, a start \<open>s \<ge> 0\<close> and a length
  \<open>0 < len \<le> C\<close>: both paths give the same segments; there is one segment when the range
  ends before the physical end, and otherwise two, the second from index 0 (it is empty
  when the range ends at the physical end); the lengths are not negative and sum to
  \<open>len\<close>, no index is outside \<open>[0, C)\<close>, the segments do not overlap, and the indices
  are those of the positions of the range, each taken modulo \<open>C\<close>.
\<close>

theorem wraparound_mapping:
  assumes "0 < C" "C < 2 ^ 31" "0 \<le> s" "0 < len" "len \<le> C"
  shows "refill_physical C s (s + len) =
           (if s mod C + len < C then [(s mod C, len)]
            else [(s mod C, C - s mod C), (0, s mod C + len - C)])
       \<and> read_physical C pos (s - pos) (s - pos + len) = refill_physical C s (s + len)
       \<and> sum_list (map snd (refill_physical C s (s + len))) = len
       \<and> (\<forall>seg \<in> set (refill_physical C s (s + len)).
             0 \<le> snd seg \<and> segment_indices seg \<subseteq> {0 ..< C})
       \<and> disjoint_segments (refill_physical C s (s + len))
       \<and> (\<Union>seg \<in> set (refill_physical C s (s + len)). segment_indices seg) =
             (\<lambda>p. p mod C) ` {s ..< s + len}"
proof -
  define k where "k = s mod C"
  have k: "0 \<le> k" "k < C" using assms(1) by (simp_all add: k_def)
  have w: "refill_physical C s (s + len) =
      (if k + len < C then [(k, len)] else [(k, C - k), (0, k + len - C)])"
    unfolding k_def using assms by (rule refill_physical_closed)
  have r: "read_physical C pos (s - pos) (s - pos + len) =
      (if k + len < C then [(k, len)] else [(k, C - k), (0, k + len - C)])"
    unfolding k_def using assms by (rule read_physical_closed)
  have i: "(\<lambda>p. p mod C) ` {s ..< s + len} =
      (if k + len < C then {k ..< k + len} else {k ..< C} \<union> {0 ..< k + len - C})"
    unfolding k_def using assms by (intro positions_image) simp_all
  note ok = closed_segments_ok [OF k assms(4,5)]
  show ?thesis
    unfolding r i unfolding w k_def [symmetric] using ok by (intro conjI) simp_all
qed

text \<open>A range of four samples from position 6 in a buffer of eight: it wraps.\<close>

theorem wraparound_mapping_witness:
  "refill_physical 8 6 (6 + 4) = [(6, 2), (0, 2)]
   \<and> read_physical 8 5 (6 - 5) (6 - 5 + 4) = refill_physical 8 6 (6 + 4)
   \<and> sum_list (map snd (refill_physical 8 6 (6 + 4))) = 4
   \<and> disjoint_segments (refill_physical 8 6 (6 + 4))
   \<and> (\<Union>seg \<in> set (refill_physical 8 6 (6 + 4)). segment_indices seg) =
         (\<lambda>p. p mod 8) ` {6 ..< 6 + 4}"
proof -
  have h: "(0::int) < 8" "(8::int) < 2 ^ 31" "(0::int) \<le> 6" "(0::int) < 4" "(4::int) \<le> 8"
    by simp_all
  note w = wraparound_mapping [OF h, of 5]
  from w have a: "refill_physical 8 6 (6 + 4) = [(6, 2), (0, 2)]" by simp
  from w have b: "read_physical 8 5 (6 - 5) (6 - 5 + 4) = refill_physical 8 6 (6 + 4)"
    and c: "sum_list (map snd (refill_physical 8 6 (6 + 4))) = 4"
    and e: "disjoint_segments (refill_physical 8 6 (6 + 4))"
    and f: "(\<Union>seg \<in> set (refill_physical 8 6 (6 + 4)). segment_indices seg) =
         (\<lambda>p. p mod 8) ` {6 ..< 6 + 4}"
    by blast+
  show ?thesis by (intro conjI) (rule a b c e f)+
qed

text \<open>
  The claim as stated fails for a range that ends at the physical end: it does not cross
  the end and gets two segments, the second empty. In the scenario, with the cursor moved
  to 2048 before the first refill, the refill selects the section \<open>[2048, 4096)\<close> of a
  cache of 4096 samples and calls \<^verbatim>\<open>readBufferSection\<close> twice, the second time for no
  samples. The same in a buffer of eight samples for the range \<open>[4, 8)\<close>. There the
  mapping also gives the empty range at position 3 (\<open>len = 0\<close>) a segment of five samples
  and one of minus five, and the range from the negative position \<open>-3\<close> the index
  \<open>-3\<close>; both paths call the mapping only for ranges that are not empty and do not
  start before position 0.
\<close>

theorem wraparound_mapping_counterexample:
  "sectionToReadStart (snd (plan_refill (setNextReadPosition example_fresh 2048))) = 2048
   \<and> sectionToReadEnd (snd (plan_refill (setNextReadPosition example_fresh 2048))) = 4096
   \<and> refill_segments 4096 2048 4096 = [(2048, 2048, 2048), (4096, 0, 0)]
   \<and> \<not> crosses_end 4096 2048 2048
   \<and> \<not> wrap_ok 4096 2048 2048 (refill_physical 4096 2048 4096)
   \<and> refill_physical 8 4 (4 + 4) = [(4, 4), (0, 0)]
   \<and> read_physical 8 0 4 (4 + 4) = [(4, 4), (0, 0)]
   \<and> \<not> crosses_end 8 4 4
   \<and> \<not> wrap_ok 8 4 4 (refill_physical 8 4 (4 + 4))
   \<and> refill_physical 8 3 (3 + 0) = [(3, 5), (0, - 5)]
   \<and> \<not> wrap_ok 8 3 0 (refill_physical 8 3 (3 + 0))
   \<and> refill_physical 8 (- 3) (- 3 + 2) = [(- 3, 2)]
   \<and> \<not> wrap_ok 8 (- 3) 2 (refill_physical 8 (- 3) (- 3 + 2))"
  by (simp add: refill_physical_def refill_segments_def read_physical_def read_segments_def
      to_int32_def c_rem_def crosses_end_def wrap_ok_def segment_indices_def
      plan_refill_def loop_check_def choose_section_def setNextReadPosition_def
      example_fresh_def example_source_def isLooping_def jmax_def jmin_def maxChunkSize_def
      to_int64_def)

subsection \<open>The invariant of the valid range\<close>

text \<open>
  C3. The claim: after every operation that writes the valid range (the reset of
  \<^verbatim>\<open>prepareToPlay\<close>, and in \<^verbatim>\<open>readNextBufferChunk\<close> the discard for a changed looping
  flag, the discard of the cold case, the update of the drift case and the final commit),
  \<open>0 \<le> bufferValidEnd - bufferValidStart \<le> capacity\<close> holds, for every reachable state
  and every cursor position.

  What the code does. The invariant holds in every prepared state that is reached while no
  refill overflowed; after the reset of \<^verbatim>\<open>prepareToPlay\<close> with any arguments and after the
  check of the looping flag, wherever the cursor is; and, when the window and the chunk
  of the refill end at positions that an \<^verbatim>\<open>int64\<close> holds (\<open>refill_in_range\<close>), after the
  first locked block (which holds the cold discard and the drift update), after the whole
  call, which returns, after the commit wherever the cursor was moved to meanwhile, and
  after \<^verbatim>\<open>prepareToPlay\<close> with its wait.
\<close>

theorem valid_range_invariant:
  assumes "reachable st"
  shows "(isPrepared st \<longrightarrow> range_inv st)
     \<and> range_inv (prepare_reset st
          (jmax (to_int32 (samplesPerBlockExpected * 2)) (numberOfSamplesToBuffer st)) newSampleRate)
     \<and> (\<forall>slices st'.
          refill_in_range (prepare_reset st
            (jmax (to_int32 (samplesPerBlockExpected * 2)) (numberOfSamplesToBuffer st)) newSampleRate)
          \<and> prepareToPlay st samplesPerBlockExpected newSampleRate slices = Some st'
          \<longrightarrow> range_inv st')
     \<and> (isTimeSliceClient st \<longrightarrow> range_inv (loop_check st))
     \<and> (isTimeSliceClient st \<and> refill_in_range st \<longrightarrow>
          range_inv (fst (plan_refill st))
          \<and> (\<exists>didWork st'. readNextBufferChunk st = Some (didWork, st') \<and> range_inv st')
          \<and> (\<forall>st1 p st2 pos.
                plan_refill st = (st1, p)
                \<and> sectionToReadStart p \<noteq> sectionToReadEnd p
                \<and> readBufferSections st1
                     (refill_segments (getNumSamples (buffer st1))
                        (sectionToReadStart p) (sectionToReadEnd p)) = Some st2
                \<and> - (2 ^ 63) \<le> pos \<and> pos < 2 ^ 63
                \<longrightarrow> range_inv (commit_range (st2\<lparr>nextPlayPos := pos\<rparr>) p)))"
proof -
  have r: "range_inv s" if "state_inv s" "isPrepared s" for s :: "'a BufferingAudioSource"
    using that by (simp add: state_inv_def range_inv_def)
  have p: "isPrepared s" if "reachable s" "isTimeSliceClient s" for s :: "'a BufferingAudioSource"
    using reachable_state_inv [OF that(1)] that(2) by (simp add: state_inv_def)
  note inv = reachable_state_inv [OF assms]
  have a: "isPrepared st \<longrightarrow> range_inv st" using r [OF inv] by blast
  have b: "range_inv (prepare_reset st
          (jmax (to_int32 (samplesPerBlockExpected * 2)) (numberOfSamplesToBuffer st)) newSampleRate)"
    using prepare_reset_inv [OF inv] by (rule r) (simp add: prepare_reset_def)
  have b': "range_inv st'"
    if "refill_in_range (prepare_reset st
            (jmax (to_int32 (samplesPerBlockExpected * 2)) (numberOfSamplesToBuffer st)) newSampleRate)
          \<and> prepareToPlay st samplesPerBlockExpected newSampleRate slices = Some st'"
    for slices st'
  proof -
    from that have h: "refill_in_range (prepare_reset st
            (jmax (to_int32 (samplesPerBlockExpected * 2)) (numberOfSamplesToBuffer st)) newSampleRate)"
      "prepareToPlay st samplesPerBlockExpected newSampleRate slices = Some st'"
      by simp_all
    note q = prepareToPlay_reachable [OF assms h]
    from reachable_state_inv [OF q(1)] q(2) show ?thesis by (rule r)
  qed
  have l: "range_inv (loop_check st)" if t: "isTimeSliceClient st"
  proof -
    have "isPrepared st" using assms t by (rule p)
    then show ?thesis
      using state_inv_loop_check [OF inv] by (intro r) (simp_all add: loop_check_fields)
  qed
  have c: "range_inv (fst (plan_refill st))
          \<and> (\<exists>didWork st'. readNextBufferChunk st = Some (didWork, st') \<and> range_inv st')
          \<and> (\<forall>st1 p st2 pos.
                plan_refill st = (st1, p)
                \<and> sectionToReadStart p \<noteq> sectionToReadEnd p
                \<and> readBufferSections st1
                     (refill_segments (getNumSamples (buffer st1))
                        (sectionToReadStart p) (sectionToReadEnd p)) = Some st2
                \<and> - (2 ^ 63) \<le> pos \<and> pos < 2 ^ 63
                \<longrightarrow> range_inv (commit_range (st2\<lparr>nextPlayPos := pos\<rparr>) p))"
    if t: "isTimeSliceClient st \<and> refill_in_range st"
  proof (intro conjI allI impI)
    have pr: "isPrepared st" using assms t by (intro p) simp_all
    have ir: "refill_in_range st" using t by simp
    show "range_inv (fst (plan_refill st))"
      using plan_refill_facts(1,2) [OF inv pr ir] by (rule r)
    from readNextBufferChunk_prepared [OF inv pr ir]
    show "\<exists>didWork st'. readNextBufferChunk st = Some (didWork, st') \<and> range_inv st'"
      using r by blast
  next
    fix st1 p st2 and pos :: int
    assume h: "plan_refill st = (st1, p)
                \<and> sectionToReadStart p \<noteq> sectionToReadEnd p
                \<and> readBufferSections st1
                     (refill_segments (getNumSamples (buffer st1))
                        (sectionToReadStart p) (sectionToReadEnd p)) = Some st2
                \<and> - (2 ^ 63) \<le> pos \<and> pos < 2 ^ 63"
    have pr: "isPrepared st" using assms t by (intro p) simp_all
    have ir: "refill_in_range st" using t by simp
    have tc: "isTimeSliceClient st" using t by simp
    from h have pl: "plan_refill st = (st1, p)"
      and ne: "sectionToReadStart p \<noteq> sectionToReadEnd p"
      and run: "readBufferSections st1
                     (refill_segments (getNumSamples (buffer st1))
                        (sectionToReadStart p) (sectionToReadEnd p)) = Some st2"
      and rng: "- (2 ^ 63) \<le> pos" "pos < 2 ^ 63"
      by simp_all
    have "reachable (commit_range (st2\<lparr>nextPlayPos := pos\<rparr>) p)"
      using assms tc ir pl ne run rng by (rule reachable.committed)
    then have "state_inv (commit_range (st2\<lparr>nextPlayPos := pos\<rparr>) p)"
      by (rule reachable_state_inv)
    moreover have "isPrepared st1"
      using plan_refill_facts(2) [OF inv pr ir] pl by simp
    then have "isPrepared st2"
      using readBufferSections_fields [OF run] by simp
    then have "isPrepared (commit_range (st2\<lparr>nextPlayPos := pos\<rparr>) p)"
      by (simp add: commit_range_def)
    ultimately show "range_inv (commit_range (st2\<lparr>nextPlayPos := pos\<rparr>) p)" by (rule r)
  qed
  show ?thesis using a b b' l c by blast
qed

text \<open>
  The state of the scenario after the first refill; \<^verbatim>\<open>prepareToPlay\<close> for another sample
  rate, with no time slice during its one sleep.
\<close>

theorem valid_range_invariant_witness:
  "range_inv example_filled
   \<and> range_inv (prepare_reset example_filled 4096 48000)
   \<and> (\<exists>st'. prepareToPlay example_filled 512 48000 [0] = Some st' \<and> range_inv st')
   \<and> range_inv (loop_check example_filled)
   \<and> range_inv (fst (plan_refill example_filled))
   \<and> (\<exists>didWork st'. readNextBufferChunk example_filled = Some (didWork, st') \<and> range_inv st')"
proof -
  have h: "isPrepared example_filled" "isTimeSliceClient example_filled"
    by (simp_all add: example_filled_def example_fresh_def)
  have n: "jmax (to_int32 (512 * 2)) (numberOfSamplesToBuffer example_filled) = 4096"
    by (simp add: example_filled_def example_fresh_def jmax_def to_int32_def)
  have i: "refill_in_range (prepare_reset example_filled 4096 48000)"
    by (simp add: refill_in_range_def prepare_reset_def example_filled_def example_fresh_def
        jmax_def maxChunkSize_def AudioBuffer_setSize_def AudioBuffer_clearAll_def)
  have run: "prepareToPlay example_filled 512 48000 [0] = Some (prepare_reset example_filled 4096 48000)"
    unfolding prepareToPlay_def Let_def n
    by (simp add: prepare_reset_def example_filled_def example_fresh_def)
  note w = valid_range_invariant [OF reachable_example_filled, of 512 48000, unfolded n]
  from w h have a: "range_inv example_filled" by blast
  from w have b: "range_inv (prepare_reset example_filled 4096 48000)" by blast
  from w i run have c: "\<exists>st'. prepareToPlay example_filled 512 48000 [0] = Some st' \<and> range_inv st'"
    by blast
  from w h have d: "range_inv (loop_check example_filled)" by blast
  from w h example_in_range(2) have e: "range_inv (fst (plan_refill example_filled))"
    and f: "\<exists>didWork st'. readNextBufferChunk example_filled = Some (didWork, st') \<and> range_inv st'"
    by blast+
  show ?thesis using a b c d e f by blast
qed

text \<open>
  The claim as stated fails for a cursor near the last position that an \<^verbatim>\<open>int64\<close>
  holds. The state of the scenario after the first refill, with the cursor moved to
  \<open>2^63 - 1\<close>, is reachable, and the object is registered. The refill takes the cold
  path; the additions of lines 246 and 254 overflow, and the commit writes the end
  \<open>- 2^63 + 2047\<close>, which lies before the start \<open>2^63 - 1\<close>.
\<close>

theorem valid_range_invariant_counterexample:
  "reachable example_top
   \<and> isTimeSliceClient example_top
   \<and> nextPlayPos example_top = 9223372036854775807
   \<and> map_option fst (readNextBufferChunk example_top) = Some True
   \<and> map_option (bufferValidStart \<circ> snd) (readNextBufferChunk example_top) = Some 9223372036854775807
   \<and> map_option (bufferValidEnd \<circ> snd) (readNextBufferChunk example_top) = Some (- 9223372036854773761)
   \<and> map_option (range_inv \<circ> snd) (readNextBufferChunk example_top) = Some False"
proof -
  have f: "isTimeSliceClient example_top" "nextPlayPos example_top = 9223372036854775807"
    by (simp_all add: example_top_def setNextReadPosition_def example_filled_def example_fresh_def
        last_position_def)
  have "map_option (range_inv \<circ> snd) (readNextBufferChunk example_top) = Some False"
    using example_top_refill(2,3)
    by (cases "readNextBufferChunk example_top") (simp_all add: range_inv_def)
  with reachable_example_top f example_top_refill(1,2,3) show ?thesis by blast
qed

subsection \<open>A block inside the valid range\<close>

text \<open>
  C4. The claim: when the requested range \<open>[cursor, cursor + n)\<close> is inside the valid
  range, the destination receives on every channel the cached samples of the source for
  that range, and no sample is zero-filled.

  What the code does, in a state with storage and for a well-formed request: the call
  returns; on every channel that the cache and the destination both have (line 126), the
  block is the content of the cache at the physical indices of the positions from the
  cursor on, which are the samples of the source at these positions when the cache holds
  them (\<open>cache_holds\<close>); every other sample of the destination, on the channels that
  the cache does not have too, is as it was before the call (none is cleared).
\<close>

theorem read_inside_valid_range:
  assumes "cache_ok st" and "info_ok info"
    and "bufferValidStart st \<le> nextPlayPos st"
    and "nextPlayPos st + numSamples info \<le> bufferValidEnd st"
  shows "\<exists>st' info'. getNextAudioBlock st info = Some (st', info')
     \<and> (\<forall>c i. c < min (numberOfChannels st) (getNumChannels (info_buffer info))
               \<and> 0 \<le> i \<and> i < numSamples info
            \<longrightarrow> channelData (info_buffer info') c (startSample info + i)
                 = channelData (buffer st) c ((nextPlayPos st + i) mod getNumSamples (buffer st)))
     \<and> (cache_holds st \<longrightarrow>
          (\<forall>c i. c < min (numberOfChannels st) (getNumChannels (info_buffer info))
               \<and> 0 \<le> i \<and> i < numSamples info
            \<longrightarrow> channelData (info_buffer info') c (startSample info + i)
                 = sourceData (source st) c (nextPlayPos st + i)))
     \<and> (\<forall>c i. \<not> (c < min (numberOfChannels st) (getNumChannels (info_buffer info))
                  \<and> startSample info \<le> i \<and> i < startSample info + numSamples info)
            \<longrightarrow> channelData (info_buffer info') c i = channelData (info_buffer info) c i)"
proof (cases "isEmpty (getValidBufferRange st (numSamples info))")
  case True
  have r: "bufferValidStart st \<le> bufferValidEnd st" "0 \<le> numSamples info" "numSamples info < 2 ^ 31"
    using assms by (simp_all add: cache_ok_def info_ok_def)
  have br: "block_in_range st (numSamples info)"
    using assms by (simp add: block_in_range_def cache_ok_def)
  have e: "{nextPlayPos st ..< nextPlayPos st + numSamples info}
          \<inter> {bufferValidStart st ..< bufferValidEnd st} = {}"
    using getValidBufferRange_empty_iff [OF r br] True by blast
  have n0: "numSamples info = 0"
  proof (rule ccontr)
    assume "numSamples info \<noteq> 0"
    then have "nextPlayPos st \<in> {nextPlayPos st ..< nextPlayPos st + numSamples info}
          \<inter> {bufferValidStart st ..< bufferValidEnd st}"
      using r(2) assms(3,4) by simp
    with e show False by blast
  qed
  show ?thesis
    unfolding getNextAudioBlock_miss [OF assms(2) True] by (auto simp: n0)
next
  case False
  have br: "block_in_range st (numSamples info)"
    using assms by (simp add: block_in_range_def cache_ok_def)
  from getNextAudioBlock_hit [OF assms(1,2) False br]
  obtain info' where run: "getNextAudioBlock st info =
        Some (st\<lparr>nextPlayPos := nextPlayPos st + numSamples info\<rparr>, info')"
    and d: "\<And>c i. channelData (info_buffer info') c i =
          (if c < getNumChannels (info_buffer info)
              \<and> startSample info \<le> i \<and> i < startSample info + numSamples info
           then (if bufferValidStart st \<le> nextPlayPos st + (i - startSample info)
                    \<and> nextPlayPos st + (i - startSample info) < bufferValidEnd st
                 then (if c < numberOfChannels st
                       then channelData (buffer st) c
                              ((nextPlayPos st + (i - startSample info)) mod getNumSamples (buffer st))
                       else channelData (info_buffer info) c i)
                 else 0)
           else channelData (info_buffer info) c i)"
    by blast
  have a: "channelData (info_buffer info') c (startSample info + i)
             = channelData (buffer st) c ((nextPlayPos st + i) mod getNumSamples (buffer st))"
    if "c < min (numberOfChannels st) (getNumChannels (info_buffer info)) \<and> 0 \<le> i \<and> i < numSamples info"
    for c i
  proof -
    have "bufferValidStart st \<le> nextPlayPos st + i" "nextPlayPos st + i < bufferValidEnd st"
      using that assms(3,4) by linarith+
    then show ?thesis using that by (auto simp: d)
  qed
  have h: "channelData (info_buffer info') c (startSample info + i)
             = sourceData (source st) c (nextPlayPos st + i)"
    if "cache_holds st"
      "c < min (numberOfChannels st) (getNumChannels (info_buffer info)) \<and> 0 \<le> i \<and> i < numSamples info"
    for c i
  proof -
    have "c \<in> {..< numberOfChannels st}"
      "nextPlayPos st + i \<in> {bufferValidStart st ..< bufferValidEnd st}"
      using that(2) assms(3,4) by simp_all
    with that(1) have "channelData (buffer st) c ((nextPlayPos st + i) mod getNumSamples (buffer st))
        = sourceData (source st) c (nextPlayPos st + i)"
      unfolding cache_holds_def by blast
    with a [OF that(2)] show ?thesis by simp
  qed
  have b: "channelData (info_buffer info') c i = channelData (info_buffer info) c i"
    if "\<not> (c < min (numberOfChannels st) (getNumChannels (info_buffer info))
                  \<and> startSample info \<le> i \<and> i < startSample info + numSamples info)"
    for c i
  proof (cases "startSample info \<le> i \<and> i < startSample info + numSamples info")
    case True
    then have "bufferValidStart st \<le> nextPlayPos st + (i - startSample info)"
      "nextPlayPos st + (i - startSample info) < bufferValidEnd st"
      using assms(3,4) by linarith+
    then show ?thesis using that True by (auto simp: d)
  next
    case False
    then show ?thesis by (auto simp: d)
  qed
  show ?thesis using run a h b by blast
qed

text \<open>The second request of the scenario: 512 samples from position 512, after the first refill.\<close>

theorem read_inside_valid_range_witness:
  "map_option (\<lambda>(st', info'). (channelData (info_buffer info') 0 0, channelData (info_buffer info') 1 511))
     (getNextAudioBlock (setNextReadPosition example_filled 512) example_block) = Some (513, 11024)"
proof -
  let ?st = "setNextReadPosition example_filled 512"
  have h: "cache_ok ?st" "info_ok example_block"
    "bufferValidStart ?st \<le> nextPlayPos ?st"
    "nextPlayPos ?st + numSamples example_block \<le> bufferValidEnd ?st"
    by (simp_all add: cache_ok_def info_ok_def setNextReadPosition_def
        example_filled_def example_fresh_def example_block_def)
  have ch: "cache_holds ?st"
    by (simp add: cache_holds_def setNextReadPosition_def
        example_filled_def example_fresh_def example_source_def)
  from read_inside_valid_range [OF h] ch
  obtain st' info' where run: "getNextAudioBlock ?st example_block = Some (st', info')"
    and d: "\<And>c i. c < min (numberOfChannels ?st) (getNumChannels (info_buffer example_block))
               \<and> 0 \<le> i \<and> i < numSamples example_block
            \<Longrightarrow> channelData (info_buffer info') c (startSample example_block + i)
                 = sourceData (source ?st) c (nextPlayPos ?st + i)"
    by blast
  have "channelData (info_buffer info') 0 (startSample example_block + 0) = 513"
    by (subst d) (simp_all add: setNextReadPosition_def example_filled_def example_fresh_def
        example_source_def example_block_def)
  moreover have "channelData (info_buffer info') 1 (startSample example_block + 511) = 11024"
    by (subst d) (simp_all add: setNextReadPosition_def example_filled_def example_fresh_def
        example_source_def example_block_def)
  moreover have "startSample example_block = 0" by (simp add: example_block_def)
  ultimately show ?thesis by (simp add: run)
qed

text \<open>
  The claim as stated fails on a channel that the cache does not have. The second request
  of the scenario into a destination of three channels: the cache has two, the block is
  inside the valid range, and channel 2 of the destination keeps the sample 7 that it
  held, while channel 1 gets the sample of the source. It also fails without storage:
  after \<^verbatim>\<open>releaseResources\<close>, which leaves the valid range as it was, the remainder of
  line 130 is one by zero.
\<close>

theorem read_inside_valid_range_counterexample:
  "map_option (sample 2 0 \<circ> snd)
     (getNextAudioBlock (setNextReadPosition example_filled 512) example_block_wide) = Some 7
   \<and> map_option (sample 1 0 \<circ> snd)
     (getNextAudioBlock (setNextReadPosition example_filled 512) example_block_wide) = Some 10513
   \<and> sourceData example_source 2 512 = 20513
   \<and> getNextAudioBlock (releaseResources (setNextReadPosition example_filled 512)) example_block = None"
proof -
  let ?st = "setNextReadPosition example_filled 512"
  have f: "nextPlayPos ?st = 512" "bufferValidStart ?st = 0" "bufferValidEnd ?st = 2048"
    "numberOfChannels ?st = 2" "getNumSamples (buffer ?st) = 4096"
    "numSamples example_block_wide = 512" "startSample example_block_wide = 0"
    "getNumChannels (info_buffer example_block_wide) = 3"
    by (simp_all add: setNextReadPosition_def example_filled_def example_fresh_def example_block_wide_def)
  have c: "cache_ok ?st"
    by (simp add: cache_ok_def setNextReadPosition_def example_filled_def example_fresh_def)
  have i: "info_ok example_block_wide" by (simp add: info_ok_def example_block_wide_def)
  have br: "block_in_range ?st (numSamples example_block_wide)"
    by (simp add: block_in_range_def f)
  have "{nextPlayPos ?st ..< nextPlayPos ?st + numSamples example_block_wide}
          \<inter> {bufferValidStart ?st ..< bufferValidEnd ?st} \<noteq> {}"
    by (simp add: f)
  then have ne: "\<not> isEmpty (getValidBufferRange ?st (numSamples example_block_wide))"
    using getValidBufferRange_empty_iff [OF _ _ _ br] by (simp add: f)
  from getNextAudioBlock_hit [OF c i ne br]
  obtain info' where run: "getNextAudioBlock ?st example_block_wide =
        Some (?st\<lparr>nextPlayPos := nextPlayPos ?st + numSamples example_block_wide\<rparr>, info')"
    and d: "\<And>c i. channelData (info_buffer info') c i =
          (if c < getNumChannels (info_buffer example_block_wide)
              \<and> startSample example_block_wide \<le> i
              \<and> i < startSample example_block_wide + numSamples example_block_wide
           then (if bufferValidStart ?st \<le> nextPlayPos ?st + (i - startSample example_block_wide)
                    \<and> nextPlayPos ?st + (i - startSample example_block_wide) < bufferValidEnd ?st
                 then (if c < numberOfChannels ?st
                       then channelData (buffer ?st) c
                              ((nextPlayPos ?st + (i - startSample example_block_wide))
                                 mod getNumSamples (buffer ?st))
                       else channelData (info_buffer example_block_wide) c i)
                 else 0)
           else channelData (info_buffer example_block_wide) c i)"
    by blast
  have a: "sample 2 0 info' = 7"
    unfolding sample_def d f by (simp add: example_block_wide_def)
  have b: "sample 1 0 info' = 10513"
    unfolding sample_def d f
    by (simp add: setNextReadPosition_def example_filled_def example_fresh_def example_source_def)
  have s: "sourceData example_source 2 512 = 20513" by (simp add: example_source_def)
  let ?r = "releaseResources ?st"
  have g: "nextPlayPos ?r = 512" "bufferValidStart ?r = 0" "bufferValidEnd ?r = 2048"
    "numberOfChannels ?r = 2" "getNumSamples (buffer ?r) = 0"
    "numSamples example_block = 512" "getNumChannels (info_buffer example_block) = 2"
    by (simp_all add: releaseResources_def AudioBuffer_setSize_def setNextReadPosition_def
        example_filled_def example_fresh_def example_block_def)
  have "getValidBufferRange ?r 512 = (max 0 512 - 512, min 2048 (512 + 512) - 512)"
    using getValidBufferRange_nonempty [of ?r 512] unfolding g
    by (simp add: block_in_range_def g)
  then have v: "getValidBufferRange ?r 512 = (0, 512)" by simp
  have n: "getNextAudioBlock ?r example_block = None"
    unfolding getNextAudioBlock_def g v
    by (simp add: isEmpty_def getStart_def getEnd_def Let_def g numeral_2_eq_2)
  show ?thesis using a b s n run by simp
qed

subsection \<open>A block outside the valid range\<close>

text \<open>
  C5. The claim: when the requested range does not meet the valid range, every sample of
  the destination range is set to zero and the call signals no error.

  What the code does, for a well-formed request whose block ends at a position that an
  \<^verbatim>\<open>int64\<close> holds and a valid range whose end is not before its start: the call returns
  (no clear leaves the destination), the state is unchanged, and on every channel of the
  destination every sample of the block is zero.
\<close>

theorem read_outside_valid_range:
  assumes "info_ok info" and "bufferValidStart st \<le> bufferValidEnd st"
    and "{nextPlayPos st ..< nextPlayPos st + numSamples info}
           \<inter> {bufferValidStart st ..< bufferValidEnd st} = {}"
    and "block_in_range st (numSamples info)"
  shows "\<exists>info'. getNextAudioBlock st info = Some (st, info')
     \<and> same_frame info info'
     \<and> (\<forall>c i. c < getNumChannels (info_buffer info)
               \<and> startSample info \<le> i \<and> i < startSample info + numSamples info
            \<longrightarrow> channelData (info_buffer info') c i = 0)"
proof -
  have r: "0 \<le> numSamples info" "numSamples info < 2 ^ 31"
    using assms(1) by (simp_all add: info_ok_def)
  have "isEmpty (getValidBufferRange st (numSamples info))"
    using getValidBufferRange_empty_iff [OF assms(2) r assms(4)] assms(3) by blast
  from getNextAudioBlock_miss [OF assms(1) this]
  show ?thesis by (simp add: same_frame_def)
qed

text \<open>The first request of the scenario, before any refill.\<close>

theorem read_outside_valid_range_witness:
  "map_option (\<lambda>(st', info'). (st' = example_fresh, channelData (info_buffer info') 0 0,
        channelData (info_buffer info') 1 511))
     (getNextAudioBlock example_fresh example_block) = Some (True, 0, 0)"
proof -
  have h: "info_ok example_block" "bufferValidStart example_fresh \<le> bufferValidEnd example_fresh"
    "{nextPlayPos example_fresh ..< nextPlayPos example_fresh + numSamples example_block}
           \<inter> {bufferValidStart example_fresh ..< bufferValidEnd example_fresh} = {}"
    "block_in_range example_fresh (numSamples example_block)"
    by (simp_all add: info_ok_def example_fresh_def example_block_def block_in_range_def)
  from read_outside_valid_range [OF h]
  obtain info' where run: "getNextAudioBlock example_fresh example_block = Some (example_fresh, info')"
    and d: "\<And>c i. c < getNumChannels (info_buffer example_block)
               \<and> startSample example_block \<le> i \<and> i < startSample example_block + numSamples example_block
            \<Longrightarrow> channelData (info_buffer info') c i = 0"
    by blast
  have "channelData (info_buffer info') 0 0 = 0"
    by (rule d) (simp add: example_block_def)
  moreover have "channelData (info_buffer info') 1 511 = 0"
    by (rule d) (simp add: example_block_def)
  ultimately show ?thesis by (simp add: run)
qed

text \<open>
  The claim as stated fails for a cursor near the last position that an \<^verbatim>\<open>int64\<close>
  holds. \<open>example_far\<close> is reachable: its valid range is \<open>[2^31 - 2000, 2^31 + 2092)\<close>
  and its cursor \<open>2^63 - 1\<close>. A request for one sample does not meet the valid range.
  The sum of line 228 overflows, the range computed is not empty, and the call takes the
  copy path with a destination index below zero instead of clearing the block.
\<close>

theorem read_outside_valid_range_counterexample:
  "reachable example_far
   \<and> cache_ok example_far
   \<and> info_ok example_block_one
   \<and> {nextPlayPos example_far ..< nextPlayPos example_far + numSamples example_block_one}
        \<inter> {bufferValidStart example_far ..< bufferValidEnd example_far} = {}
   \<and> \<not> isEmpty (getValidBufferRange example_far (numSamples example_block_one))
   \<and> getNextAudioBlock example_far example_block_one = None"
proof -
  have c: "cache_ok example_far"
    by (simp add: cache_ok_def example_far_def example_fresh_def)
  have i: "info_ok example_block_one" by (simp add: info_ok_def example_block_one_def)
  have e: "{nextPlayPos example_far ..< nextPlayPos example_far + numSamples example_block_one}
        \<inter> {bufferValidStart example_far ..< bufferValidEnd example_far} = {}"
    by (simp add: example_far_fields example_block_one_fields)
  have ne: "\<not> isEmpty (getValidBufferRange example_far (numSamples example_block_one))"
    unfolding example_block_one_fields example_far_range by (simp add: isEmpty_def)
  have n: "getNextAudioBlock example_far example_block_one = None"
    unfolding getNextAudioBlock_def example_block_one_fields example_far_range
    by (simp add: isEmpty_def getStart_def getEnd_def Let_def example_far_fields
        example_block_one_fields numeral_2_eq_2 example_far_segments copyFrom_def)
  show ?thesis using reachable_example_far c i e ne n by blast
qed

subsection \<open>The cold case of the refill\<close>

text \<open>
  C6. The claim: when \<open>newStart = max(0, nextPlayPos)\<close> lies outside the valid range, the
  refill first empties the valid range (both ends 0) and selects the section from
  \<open>newStart\<close> to \<open>min(newStart + capacity - guard, newStart + maxChunk)\<close>, so that the
  valid range becomes empty and then regrows from \<open>newStart\<close>.

  What the code does, with its guard of 4 samples and its chunk of 2048, for a capacity
  above the guard and a cursor from which the window and the chunk end at positions that
  an \<^verbatim>\<open>int64\<close> holds (\<open>refill_in_range\<close>): the first locked block leaves both ends at 0
  and selects that section; the call then returns that it read a chunk, the valid range
  is the section, and the cache holds the samples of the source at the positions of the
  section.
\<close>

theorem cold_refill:
  assumes "4 < getNumSamples (buffer st)" and "getNumSamples (buffer st) < 2 ^ 31"
    and "max 0 (nextPlayPos st) < bufferValidStart st \<or> bufferValidEnd st \<le> max 0 (nextPlayPos st)"
    and "refill_in_range st"
  shows "bufferValidStart (fst (plan_refill st)) = 0
     \<and> bufferValidEnd (fst (plan_refill st)) = 0
     \<and> sectionToReadStart (snd (plan_refill st)) = max 0 (nextPlayPos st)
     \<and> sectionToReadEnd (snd (plan_refill st)) =
         min (max 0 (nextPlayPos st) + getNumSamples (buffer st) - 4) (max 0 (nextPlayPos st) + 2048)
     \<and> (\<exists>st'. readNextBufferChunk st = Some (True, st')
          \<and> bufferValidStart st' = max 0 (nextPlayPos st)
          \<and> bufferValidEnd st' =
              min (max 0 (nextPlayPos st) + getNumSamples (buffer st) - 4) (max 0 (nextPlayPos st) + 2048)
          \<and> (\<forall>c p. c < getNumChannels (buffer st) \<and> bufferValidStart st' \<le> p \<and> p < bufferValidEnd st'
                \<longrightarrow> channelData (buffer st') c (p mod getNumSamples (buffer st))
                     = sourceData (source st) c p))"
proof -
  have c: "wasSourceLooping st \<noteq> isLooping st
     \<or> max 0 (nextPlayPos st) < bufferValidStart st
     \<or> bufferValidEnd st \<le> max 0 (nextPlayPos st)"
    using assms(3) by blast
  have n: "0 \<le> getNumSamples (buffer st)" using assms(1) by simp
  from cold_run [OF c assms(1,2,4)]
  have "\<exists>st'. readNextBufferChunk st = Some (True, st')
          \<and> bufferValidStart st' = max 0 (nextPlayPos st)
          \<and> bufferValidEnd st' =
              min (max 0 (nextPlayPos st) + getNumSamples (buffer st) - 4) (max 0 (nextPlayPos st) + 2048)
          \<and> (\<forall>c p. c < getNumChannels (buffer st) \<and> bufferValidStart st' \<le> p \<and> p < bufferValidEnd st'
                \<longrightarrow> channelData (buffer st') c (p mod getNumSamples (buffer st))
                     = sourceData (source st) c p)"
    by blast
  then show ?thesis by (simp add: cold_plan [OF c assms(4) n])
qed

text \<open>The cursor moved to 9800 after the first refill, which cached the positions up to 2048.\<close>

theorem cold_refill_witness:
  "bufferValidStart (fst (plan_refill example_seeked)) = 0
   \<and> bufferValidEnd (fst (plan_refill example_seeked)) = 0
   \<and> sectionToReadStart (snd (plan_refill example_seeked)) = 9800
   \<and> sectionToReadEnd (snd (plan_refill example_seeked)) = 11848
   \<and> (\<exists>st'. readNextBufferChunk example_seeked = Some (True, st')
        \<and> bufferValidStart st' = 9800 \<and> bufferValidEnd st' = 11848)"
proof -
  have h: "4 < getNumSamples (buffer example_seeked)" "getNumSamples (buffer example_seeked) < 2 ^ 31"
    "max 0 (nextPlayPos example_seeked) < bufferValidStart example_seeked
       \<or> bufferValidEnd example_seeked \<le> max 0 (nextPlayPos example_seeked)"
    "refill_in_range example_seeked"
    by (simp_all add: example_seeked_def setNextReadPosition_def example_filled_def example_fresh_def
        refill_in_range_def jmax_def maxChunkSize_def)
  have v: "max 0 (nextPlayPos example_seeked) = 9800" "getNumSamples (buffer example_seeked) = 4096"
    by (simp_all add: example_seeked_def setNextReadPosition_def example_filled_def example_fresh_def)
  from cold_refill [OF h]
  obtain st' where "readNextBufferChunk example_seeked = Some (True, st')"
    "bufferValidStart st' = 9800" "bufferValidEnd st' = 11848"
    unfolding v by auto
  then have "\<exists>st'. readNextBufferChunk example_seeked = Some (True, st')
        \<and> bufferValidStart st' = 9800 \<and> bufferValidEnd st' = 11848"
    by blast
  moreover from cold_refill [OF h]
  have "bufferValidStart (fst (plan_refill example_seeked)) = 0"
    "bufferValidEnd (fst (plan_refill example_seeked)) = 0"
    "sectionToReadStart (snd (plan_refill example_seeked)) = 9800"
    "sectionToReadEnd (snd (plan_refill example_seeked)) = 11848"
    unfolding v by simp_all
  ultimately show ?thesis by blast
qed

text \<open>
  The claim as stated fails for a cursor near the last position that an \<^verbatim>\<open>int64\<close>
  holds. In the state of the scenario after the first refill, with the cursor moved to
  \<open>2^63 - 1\<close>, the cursor is outside the valid range and the refill takes the cold
  path; the additions of lines 246 and 254 overflow, and the section selected ends at
  \<open>- 2^63 + 2047\<close>, not at \<open>min(newStart + capacity - 4, newStart + 2048) = 2^63 + 2047\<close>.
\<close>

theorem cold_refill_counterexample:
  "reachable example_top
   \<and> bufferValidEnd example_top \<le> max 0 (nextPlayPos example_top)
   \<and> bufferValidStart (fst (plan_refill example_top)) = 0
   \<and> bufferValidEnd (fst (plan_refill example_top)) = 0
   \<and> sectionToReadStart (snd (plan_refill example_top)) = 9223372036854775807
   \<and> sectionToReadEnd (snd (plan_refill example_top)) = - 9223372036854773761
   \<and> min (max 0 (nextPlayPos example_top) + getNumSamples (buffer example_top) - 4)
          (max 0 (nextPlayPos example_top) + 2048) = 9223372036854777855"
proof -
  have f: "nextPlayPos example_top = 9223372036854775807" "bufferValidEnd example_top = 2048"
    "getNumSamples (buffer example_top) = 4096"
    by (simp_all add: example_top_def setNextReadPosition_def example_filled_def example_fresh_def
        last_position_def)
  show ?thesis
    unfolding example_top_plan f using reachable_example_top by simp
qed

subsection \<open>A change of the looping flag\<close>

text \<open>
  C7. The claim: when the looping flag of the source differs from the flag seen by the
  call before, the refill empties the valid range before it computes the window, so that
  the call takes the cold path and reuses no cached data.

  Stated as: for every such call, the first locked block stores the flag, leaves both
  ends of the valid range at 0 and selects a section that starts at the cursor and is the
  whole new window (the cold path); what \<^verbatim>\<open>readNextBufferChunk\<close> does is the same whatever
  the valid range was before the call. And for a capacity above the guard and a window
  that ends at a position that an \<^verbatim>\<open>int64\<close> holds: \<^verbatim>\<open>readNextBufferChunk\<close> returns that it
  read a chunk, \<^verbatim>\<open>useTimeSlice\<close> returns 1, the flag stored is the flag of the source, the
  valid range is the section of the cold path, and at every position of it the cache
  holds the sample that the source produces, whatever it held before.
\<close>

theorem loop_change_discards:
  assumes "wasSourceLooping st \<noteq> isLooping st"
  shows "fst (plan_refill st)
           = st\<lparr>wasSourceLooping := isLooping st, bufferValidStart := 0, bufferValidEnd := 0\<rparr>
     \<and> newBVS (snd (plan_refill st)) = max 0 (nextPlayPos st)
     \<and> sectionToReadStart (snd (plan_refill st)) = max 0 (nextPlayPos st)
     \<and> sectionToReadEnd (snd (plan_refill st)) = newBVE (snd (plan_refill st))
     \<and> plan_refill (st\<lparr>bufferValidStart := a, bufferValidEnd := b\<rparr>) = plan_refill st
     \<and> readNextBufferChunk (st\<lparr>bufferValidStart := a, bufferValidEnd := b\<rparr>) = readNextBufferChunk st
     \<and> (4 < getNumSamples (buffer st) \<and> getNumSamples (buffer st) < 2 ^ 31 \<and> refill_in_range st
          \<longrightarrow> (\<exists>st'. readNextBufferChunk st = Some (True, st')
                 \<and> useTimeSlice st = Some (1, st')
                 \<and> wasSourceLooping st' = isLooping st
                 \<and> bufferValidStart st' = max 0 (nextPlayPos st)
                 \<and> bufferValidEnd st' =
                     min (max 0 (nextPlayPos st) + getNumSamples (buffer st) - 4)
                         (max 0 (nextPlayPos st) + 2048)
                 \<and> (\<forall>c p. c < getNumChannels (buffer st)
                          \<and> bufferValidStart st' \<le> p \<and> p < bufferValidEnd st'
                       \<longrightarrow> channelData (buffer st') c (p mod getNumSamples (buffer st))
                            = sourceData (source st) c p)))"
proof -
  have c: "wasSourceLooping st \<noteq> isLooping st
     \<or> max 0 (nextPlayPos st) < bufferValidStart st
     \<or> bufferValidEnd st \<le> max 0 (nextPlayPos st)"
    using assms by blast
  let ?st = "st\<lparr>bufferValidStart := a, bufferValidEnd := b\<rparr>"
  have "wasSourceLooping ?st \<noteq> isLooping ?st" using assms by (simp add: isLooping_def)
  then have c': "wasSourceLooping ?st \<noteq> isLooping ?st
     \<or> max 0 (nextPlayPos ?st) < bufferValidStart ?st
     \<or> bufferValidEnd ?st \<le> max 0 (nextPlayPos ?st)"
    by blast
  have l: "loop_check ?st = loop_check st"
    using assms by (simp add: loop_check_def isLooping_def)
  have i: "plan_refill ?st = plan_refill st"
    unfolding cold_plan_wrapped [OF c] cold_plan_wrapped [OF c'] l by simp
  have j: "readNextBufferChunk ?st = readNextBufferChunk st"
    unfolding readNextBufferChunk_def i ..
  have d: "loop_check st = st\<lparr>wasSourceLooping := isLooping st, bufferValidStart := 0, bufferValidEnd := 0\<rparr>"
    using assms by (simp add: loop_check_def)
  have v: "fst (plan_refill st)
           = st\<lparr>wasSourceLooping := isLooping st, bufferValidStart := 0, bufferValidEnd := 0\<rparr>"
    "newBVS (snd (plan_refill st)) = max 0 (nextPlayPos st)"
    "sectionToReadStart (snd (plan_refill st)) = max 0 (nextPlayPos st)"
    "sectionToReadEnd (snd (plan_refill st)) = newBVE (snd (plan_refill st))"
    by (simp_all add: cold_plan_wrapped [OF c] d)
  have w: "\<exists>st'. readNextBufferChunk st = Some (True, st')
                 \<and> useTimeSlice st = Some (1, st')
                 \<and> wasSourceLooping st' = isLooping st
                 \<and> bufferValidStart st' = max 0 (nextPlayPos st)
                 \<and> bufferValidEnd st' =
                     min (max 0 (nextPlayPos st) + getNumSamples (buffer st) - 4)
                         (max 0 (nextPlayPos st) + 2048)
                 \<and> (\<forall>c p. c < getNumChannels (buffer st)
                          \<and> bufferValidStart st' \<le> p \<and> p < bufferValidEnd st'
                       \<longrightarrow> channelData (buffer st') c (p mod getNumSamples (buffer st))
                            = sourceData (source st) c p)"
    if h: "4 < getNumSamples (buffer st) \<and> getNumSamples (buffer st) < 2 ^ 31 \<and> refill_in_range st"
  proof -
    from h have n: "4 < getNumSamples (buffer st)" "getNumSamples (buffer st) < 2 ^ 31"
      and r: "refill_in_range st" by simp_all
    from cold_run [OF c n r]
    obtain st' where run: "readNextBufferChunk st = Some (True, st')"
      and s: "bufferValidStart st' = max 0 (nextPlayPos st)"
         "bufferValidEnd st' = min (max 0 (nextPlayPos st) + getNumSamples (buffer st) - 4)
                                (max 0 (nextPlayPos st) + 2048)"
      and data: "\<forall>c p. c < getNumChannels (buffer st) \<and> bufferValidStart st' \<le> p \<and> p < bufferValidEnd st'
            \<longrightarrow> channelData (buffer st') c (p mod getNumSamples (buffer st))
                 = sourceData (source st) c p"
      by blast
    have "useTimeSlice st = Some (1, st')" by (simp add: useTimeSlice_def run)
    moreover have "wasSourceLooping st' = isLooping st"
      using readNextBufferChunk_keeps [OF run] by simp
    ultimately show ?thesis using run s data by blast
  qed
  show ?thesis using v i j w by blast
qed

text \<open>
  The looping flag switched on at cursor 500, with the positions up to 2048 cached: the
  cursor is inside the cached range, and the refill reads the section from the cursor on
  all the same.
\<close>

theorem loop_change_discards_witness:
  "wasSourceLooping example_loop_toggled \<noteq> isLooping example_loop_toggled
   \<and> bufferValidStart example_loop_toggled = 0
   \<and> bufferValidEnd example_loop_toggled = 2048
   \<and> bufferValidStart (fst (plan_refill example_loop_toggled)) = 0
   \<and> bufferValidEnd (fst (plan_refill example_loop_toggled)) = 0
   \<and> sectionToReadStart (snd (plan_refill example_loop_toggled)) = 500
   \<and> (\<exists>st'. readNextBufferChunk example_loop_toggled = Some (True, st')
        \<and> useTimeSlice example_loop_toggled = Some (1, st')
        \<and> wasSourceLooping st'
        \<and> bufferValidStart st' = 500 \<and> bufferValidEnd st' = 2548)"
proof -
  have h: "wasSourceLooping example_loop_toggled \<noteq> isLooping example_loop_toggled"
    by (simp add: example_loop_toggled_def setNextReadPosition_def example_filled_def
        example_fresh_def example_source_def isLooping_def)
  have v: "max 0 (nextPlayPos example_loop_toggled) = 500"
    "getNumSamples (buffer example_loop_toggled) = 4096"
    "isLooping example_loop_toggled = True"
    by (simp_all add: example_loop_toggled_def setNextReadPosition_def example_filled_def
        example_fresh_def isLooping_def)
  have e: "bufferValidStart example_loop_toggled = 0" "bufferValidEnd example_loop_toggled = 2048"
    by (simp_all add: example_loop_toggled_def setNextReadPosition_def example_filled_def example_fresh_def)
  have g: "4 < getNumSamples (buffer example_loop_toggled)
     \<and> getNumSamples (buffer example_loop_toggled) < 2 ^ 31 \<and> refill_in_range example_loop_toggled"
    by (simp add: example_loop_toggled_def setNextReadPosition_def example_filled_def example_fresh_def
        refill_in_range_def jmax_def maxChunkSize_def)
  note w = loop_change_discards [OF h, of 0 0, unfolded v]
  from w have p: "fst (plan_refill example_loop_toggled)
           = example_loop_toggled\<lparr>wasSourceLooping := True, bufferValidStart := 0, bufferValidEnd := 0\<rparr>"
    and q: "sectionToReadStart (snd (plan_refill example_loop_toggled)) = 500"
    by blast+
  from w g obtain st' where "readNextBufferChunk example_loop_toggled = Some (True, st')"
    "useTimeSlice example_loop_toggled = Some (1, st')"
    "wasSourceLooping st' = True"
    "bufferValidStart st' = 500"
    "bufferValidEnd st' = min (500 + 4096 - 4) (500 + 2048)"
    unfolding v by blast
  then have r: "\<exists>st'. readNextBufferChunk example_loop_toggled = Some (True, st')
        \<and> useTimeSlice example_loop_toggled = Some (1, st')
        \<and> wasSourceLooping st'
        \<and> bufferValidStart st' = 500 \<and> bufferValidEnd st' = 2548"
    by simp
  have "bufferValidStart (fst (plan_refill example_loop_toggled)) = 0"
    "bufferValidEnd (fst (plan_refill example_loop_toggled)) = 0"
    unfolding p by simp_all
  with h e q r show ?thesis by blast
qed

subsection \<open>The elapsed time across a rollover of the counter\<close>

lemma elapsed_no_rollover: "startTime \<le> now \<Longrightarrow> elapsed startTime now = now - startTime"
  by (simp add: elapsed_def)

lemma elapsed_rollover: "now < startTime \<Longrightarrow> elapsed startTime now = now - startTime - 1"
  by (simp add: elapsed_def)

text \<open>
  C8. The claim: the elapsed-time expression equals the true elapsed time modulo \<open>2^32\<close>,
  also after a rollover. The true elapsed time modulo \<open>2^32\<close> is the word difference
  \<open>now - startTime\<close>. One millisecond after a start at the last counter value
  (\<open>startTime = 0xFFFFFFFF\<close>, \<open>now = 0\<close>) one millisecond has passed, and the expression
  gives zero: after a rollover it is one short.
\<close>

theorem elapsed_rollover_one_short:
  "elapsed 0xFFFFFFFF 0 = 0 \<and> (0 - 0xFFFFFFFF :: 32 word) = 1 \<and>
   elapsed 0xFFFFFFF0 0x10 = 0x1F \<and> (0x10 - 0xFFFFFFF0 :: 32 word) = 0x20"
  by (simp add: elapsed_def)

subsection \<open>Configuration\<close>

text \<open>
  C9. The claim: a call of \<^verbatim>\<open>prepareToPlay\<close> whose configured minimum buffer size is
  smaller than twice the requested block size is rejected, and configuration does not
  go on silently with such parameters.

  What the code does: \<^verbatim>\<open>prepareToPlay\<close> rejects nothing. For every reachable object and
  a cursor that leaves the window of the refill below the last \<^verbatim>\<open>int64\<close> position: when
  the call returns, the object is prepared and its capacity is the larger of
  \<^verbatim>\<open>samplesPerBlockExpected * 2\<close>, computed in \<^verbatim>\<open>int\<close>, and the configured minimum, so a
  minimum that is too small is raised; for a block size whose double is an \<^verbatim>\<open>int\<close> the
  capacity is at least twice the block size. The call returns after its first sleep when
  the prefill is off, and with the prefill on when the background thread gives the object
  one time slice for every 4096 samples of the capacity, and one more, during that sleep.
\<close>

theorem prepareToPlay_never_rejects:
  assumes "reachable st"
    and "refill_in_range
           (prepare_reset st (jmax (to_int32 (samplesPerBlockExpected * 2)) (numberOfSamplesToBuffer st))
              newSampleRate)"
  shows "(\<forall>sl st'. prepareToPlay st samplesPerBlockExpected newSampleRate sl = Some st' \<longrightarrow>
            isPrepared st'
            \<and> getNumSamples (buffer st')
                 = max (to_int32 (samplesPerBlockExpected * 2)) (numberOfSamplesToBuffer st)
            \<and> (- (2 ^ 30) \<le> samplesPerBlockExpected \<and> samplesPerBlockExpected < 2 ^ 30
                 \<longrightarrow> 2 * samplesPerBlockExpected \<le> getNumSamples (buffer st')))
     \<and> (\<not> prefillBuffer st \<longrightarrow>
            (\<exists>st'. prepareToPlay st samplesPerBlockExpected newSampleRate (k # slices) = Some st'))
     \<and> (\<exists>st'. prepareToPlay st samplesPerBlockExpected newSampleRate
            ((nat (max (to_int32 (samplesPerBlockExpected * 2)) (numberOfSamplesToBuffer st) div 4096) + 1)
               # slices) = Some st')"
proof -
  define n where "n = jmax (to_int32 (samplesPerBlockExpected * 2)) (numberOfSamplesToBuffer st)"
  define st0 where "st0 = prepare_reset st n newSampleRate"
  define changed where "changed \<longleftrightarrow>
    newSampleRate \<noteq> sampleRate st \<or> n \<noteq> getNumSamples (buffer st) \<or> \<not> isPrepared st"
  note inv = reachable_state_inv [OF assms(1)]
  have nm: "n = max (to_int32 (samplesPerBlockExpected * 2)) (numberOfSamplesToBuffer st)"
    by (simp add: n_def jmax_max)
  have r0: "refill_in_range st0" using assms(2) by (simp add: st0_def n_def)
  have f0: "isPrepared st0" "isTimeSliceClient st0" "getNumSamples (buffer st0) = n"
    "prefillBuffer st0 = prefillBuffer st"
    by (simp_all add: st0_def prepare_reset_def AudioBuffer_setSize_def AudioBuffer_clearAll_def)
  have call: "prepareToPlay st samplesPerBlockExpected newSampleRate sl =
      (if changed then prefill_wait newSampleRate sl st0 else Some st)" for sl
    unfolding prepareToPlay_def Let_def n_def [symmetric] st0_def changed_def by simp
  have a: "isPrepared st' \<and> getNumSamples (buffer st') = n
            \<and> (- (2 ^ 30) \<le> samplesPerBlockExpected \<and> samplesPerBlockExpected < 2 ^ 30
                 \<longrightarrow> 2 * samplesPerBlockExpected \<le> getNumSamples (buffer st'))"
    if run: "prepareToPlay st samplesPerBlockExpected newSampleRate sl = Some st'" for sl st'
  proof -
    have cap: "isPrepared st' \<and> getNumSamples (buffer st') = n"
    proof (cases changed)
      case True
      then have "prefill_wait newSampleRate sl st0 = Some st'" using run by (simp add: call)
      from prefill_wait_keeps [OF this] f0 show ?thesis by simp
    next
      case False
      then have "st' = st" using run by (simp add: call)
      with False show ?thesis by (simp add: changed_def)
    qed
    have "2 * samplesPerBlockExpected \<le> n"
      if "- (2 ^ 30) \<le> samplesPerBlockExpected \<and> samplesPerBlockExpected < 2 ^ 30"
    proof -
      have "- (2 ^ 31) \<le> samplesPerBlockExpected * 2" "samplesPerBlockExpected * 2 < 2 ^ 31"
        using that by simp_all
      then have "to_int32 (samplesPerBlockExpected * 2) = samplesPerBlockExpected * 2"
        by (rule to_int32_id)
      then show ?thesis by (simp add: nm)
    qed
    with cap show ?thesis by simp
  qed
  have b: "\<exists>st'. prepareToPlay st samplesPerBlockExpected newSampleRate (k # slices) = Some st'"
    if off: "\<not> prefillBuffer st"
  proof (cases changed)
    case True
    then have "reachable st0"
      unfolding st0_def changed_def using assms(1) n_def by (intro reachable.waiting)
    from run_slices_reachable [OF this f0(2) r0, of k]
    obtain st1 where "run_slices k st0 = Some st1" by blast
    with off f0(4) have "prefill_wait newSampleRate (k # slices) st0 = Some st1"
      by (intro prefill_wait_off) simp_all
    with True show ?thesis by (simp add: call)
  next
    case False
    then show ?thesis by (simp add: call)
  qed
  have c: "\<exists>st'. prepareToPlay st samplesPerBlockExpected newSampleRate
            ((nat (n div 4096) + 1) # slices) = Some st'"
  proof (cases changed)
    case True
    from prefill_wait_ends [OF inv n_def, of newSampleRate slices] assms(2)
    obtain st' where "prefill_wait newSampleRate ((nat (n div 4096) + 1) # slices) st0 = Some st'"
      unfolding st0_def n_def by blast
    with True show ?thesis by (simp add: call)
  next
    case False
    then show ?thesis by (simp add: call)
  qed
  show ?thesis unfolding nm [symmetric] using a b c by blast
qed

text \<open>
  The object of the scenario constructed with the prefill on, prepared for blocks of 4096
  samples while the background thread gives it three time slices; and the object of the
  scenario, with the prefill off, prepared again while the thread gives it none.
\<close>

theorem prepareToPlay_never_rejects_witness:
  "(\<exists>st'. prepareToPlay example_prefilling 4096 48000 [3] = Some st'
        \<and> isPrepared st' \<and> getNumSamples (buffer st') = 8192)
   \<and> (\<exists>st'. prepareToPlay example_fresh 4096 48000 [0] = Some st'
        \<and> isPrepared st' \<and> getNumSamples (buffer st') = 8192)"
proof -
  have n: "jmax (to_int32 (4096 * 2)) (numberOfSamplesToBuffer example_prefilling) = 8192"
    "max (to_int32 (4096 * 2)) (numberOfSamplesToBuffer example_prefilling) = 8192"
    "jmax (to_int32 (4096 * 2)) (numberOfSamplesToBuffer example_fresh) = 8192"
    "max (to_int32 (4096 * 2)) (numberOfSamplesToBuffer example_fresh) = 8192"
    by (simp_all add: example_prefilling_def BufferingAudioSource_new_def example_fresh_def
        jmax_def to_int32_def)
  have r1: "reachable example_prefilling"
    unfolding example_prefilling_def by (rule reachable.constructed) simp_all
  have i1: "refill_in_range (prepare_reset example_prefilling 8192 48000)"
    by (simp add: refill_in_range_def prepare_reset_def example_prefilling_def
        BufferingAudioSource_new_def jmax_def maxChunkSize_def AudioBuffer_setSize_def
        AudioBuffer_clearAll_def)
  have i2: "refill_in_range (prepare_reset example_fresh 8192 48000)"
    by (simp add: refill_in_range_def prepare_reset_def example_fresh_def
        jmax_def maxChunkSize_def AudioBuffer_setSize_def AudioBuffer_clearAll_def)
  have k: "nat (8192 div 4096) + 1 = (3::nat)" by simp
  note w1 = prepareToPlay_never_rejects [OF r1, of 4096 48000 0 "[]", unfolded n k, OF i1]
  note w2 = prepareToPlay_never_rejects [OF reachable_example_fresh, of 4096 48000 0 "[]", unfolded n, OF i2]
  have off: "\<not> prefillBuffer example_fresh" by (simp add: example_fresh_def)
  from w1 have "\<exists>st'. prepareToPlay example_prefilling 4096 48000 [3] = Some st'
        \<and> isPrepared st' \<and> getNumSamples (buffer st') = 8192"
    by blast
  moreover from w2 off have "\<exists>st'. prepareToPlay example_fresh 4096 48000 [0] = Some st'
        \<and> isPrepared st' \<and> getNumSamples (buffer st') = 8192"
    by blast
  ultimately show ?thesis by blast
qed

text \<open>
  A minimum of 2048 samples and blocks of 2048 samples: the constructor accepts the
  minimum, which is smaller than twice the block size, and the first call of
  \<^verbatim>\<open>prepareToPlay\<close> returns after its first sleep: the object is prepared, registered
  with the background thread, and has 4096 samples.
\<close>

theorem prepareToPlay_never_rejects_counterexample:
  "BufferingAudioSource_new example_source 2048 2 False = example_small
   \<and> numberOfSamplesToBuffer example_small < 2 * 2048
   \<and> map_option isPrepared (prepareToPlay example_small 2048 44100 [0]) = Some True
   \<and> map_option isTimeSliceClient (prepareToPlay example_small 2048 44100 [0]) = Some True
   \<and> map_option (getNumSamples \<circ> buffer) (prepareToPlay example_small 2048 44100 [0]) = Some 4096"
  by (simp add: BufferingAudioSource_new_def prepareToPlay_def prepare_reset_def jmax_def
      example_small_def to_int32_def AudioBuffer_setSize_def AudioBuffer_clearAll_def)

subsection \<open>The valid part of a block\<close>

text \<open>
  C10. The claim: for every cursor, every valid range and every \<open>n \<ge> 0\<close>, the range
  that \<^verbatim>\<open>getValidBufferRange\<close> computes is empty or satisfies \<open>0 \<le> start < end \<le> n\<close>, so
  that every clear and every copy of the read path stays inside the block of \<open>n\<close>
  samples.

  What the code does, for a valid range whose end is not before its start, for \<open>n\<close> an
  \<^verbatim>\<open>int\<close> (\<open>n < 2^31\<close>) and for a cursor from which the block ends at a position that an
  \<^verbatim>\<open>int64\<close> holds: the range is empty or satisfies \<open>0 \<le> start < end \<le> n\<close>; and, for a
  well-formed state and request, the call returns and leaves every sample outside the
  block as it was.
\<close>

theorem valid_range_within_block:
  assumes "bufferValidStart st \<le> bufferValidEnd st" and "0 \<le> n" and "n < 2 ^ 31"
    and "block_in_range st n"
  shows "(isEmpty (getValidBufferRange st n)
          \<or> (0 \<le> getStart (getValidBufferRange st n)
             \<and> getStart (getValidBufferRange st n) < getEnd (getValidBufferRange st n)
             \<and> getEnd (getValidBufferRange st n) \<le> n))
     \<and> (\<forall>info. cache_ok st \<and> info_ok info \<and> numSamples info = n \<longrightarrow>
           (\<exists>st' info'. getNextAudioBlock st info = Some (st', info')
              \<and> same_frame info info'
              \<and> (\<forall>c i. i < startSample info \<or> startSample info + n \<le> i
                     \<longrightarrow> channelData (info_buffer info') c i = channelData (info_buffer info) c i)))"
proof (intro conjI allI impI)
  show "isEmpty (getValidBufferRange st n)
          \<or> (0 \<le> getStart (getValidBufferRange st n)
             \<and> getStart (getValidBufferRange st n) < getEnd (getValidBufferRange st n)
             \<and> getEnd (getValidBufferRange st n) \<le> n)"
    using assms by (rule getValidBufferRange_cases)
next
  fix info :: "'a AudioSourceChannelInfo"
  assume h: "cache_ok st \<and> info_ok info \<and> numSamples info = n"
  show "\<exists>st' info'. getNextAudioBlock st info = Some (st', info')
              \<and> same_frame info info'
              \<and> (\<forall>c i. i < startSample info \<or> startSample info + n \<le> i
                     \<longrightarrow> channelData (info_buffer info') c i = channelData (info_buffer info) c i)"
  proof (cases "isEmpty (getValidBufferRange st (numSamples info))")
    case True
    from h have "info_ok info" by simp
    from getNextAudioBlock_miss [OF this True] h
    show ?thesis by (auto simp: same_frame_def)
  next
    case False
    from h have "cache_ok st" "info_ok info" "block_in_range st (numSamples info)"
      using assms(4) by simp_all
    from getNextAudioBlock_hit [OF this(1,2) False this(3)] h
    show ?thesis by auto
  qed
qed

text \<open>
  A block of 512 samples from position 1792 after the first refill: the valid range ends
  inside the block.
\<close>

theorem valid_range_within_block_witness:
  "\<not> isEmpty (getValidBufferRange (setNextReadPosition example_filled 1792) 512)
   \<and> 0 \<le> getStart (getValidBufferRange (setNextReadPosition example_filled 1792) 512)
   \<and> getStart (getValidBufferRange (setNextReadPosition example_filled 1792) 512)
       < getEnd (getValidBufferRange (setNextReadPosition example_filled 1792) 512)
   \<and> getEnd (getValidBufferRange (setNextReadPosition example_filled 1792) 512) \<le> 512
   \<and> (\<exists>st' info'. getNextAudioBlock (setNextReadPosition example_filled 1792) example_block = Some (st', info')
        \<and> same_frame example_block info')"
proof -
  let ?st = "setNextReadPosition example_filled 1792"
  have h: "bufferValidStart ?st \<le> bufferValidEnd ?st" "(0::int) \<le> 512" "(512::int) < 2 ^ 31"
    "block_in_range ?st 512"
    by (simp_all add: setNextReadPosition_def example_filled_def example_fresh_def block_in_range_def)
  have "{nextPlayPos ?st ..< nextPlayPos ?st + 512} \<inter> {bufferValidStart ?st ..< bufferValidEnd ?st} \<noteq> {}"
    by (simp add: setNextReadPosition_def example_filled_def example_fresh_def)
  then have ne: "\<not> isEmpty (getValidBufferRange ?st 512)"
    using getValidBufferRange_empty_iff [OF h] by simp
  have ok: "cache_ok ?st \<and> info_ok example_block \<and> numSamples example_block = 512"
    by (simp add: cache_ok_def info_ok_def setNextReadPosition_def example_filled_def
        example_fresh_def example_block_def)
  note w = valid_range_within_block [OF h]
  from w ne have "0 \<le> getStart (getValidBufferRange ?st 512)
     \<and> getStart (getValidBufferRange ?st 512) < getEnd (getValidBufferRange ?st 512)
     \<and> getEnd (getValidBufferRange ?st 512) \<le> 512"
    by blast
  moreover from w ok have "\<exists>st' info'. getNextAudioBlock ?st example_block = Some (st', info')
        \<and> same_frame example_block info'"
    by blast
  ultimately show ?thesis using ne by blast
qed

text \<open>
  The claim as stated fails for a cursor near the last position that an \<^verbatim>\<open>int64\<close>
  holds. In the reachable state \<open>example_far\<close>, with the valid range
  \<open>[2^31 - 2000, 2^31 + 2092)\<close> and the cursor \<open>2^63 - 1\<close>, the sum of line 228 for a block
  of one sample overflows, and the range computed is not empty, starts below 0 and ends
  above 1.
\<close>

theorem valid_range_within_block_counterexample:
  "reachable example_far
   \<and> bufferValidStart example_far \<le> bufferValidEnd example_far
   \<and> nextPlayPos example_far = 9223372036854775807
   \<and> \<not> isEmpty (getValidBufferRange example_far 1)
   \<and> getStart (getValidBufferRange example_far 1) = - 2147481555
   \<and> getEnd (getValidBufferRange example_far 1) = 2147481649"
  unfolding example_far_range
  using reachable_example_far
  by (simp add: example_far_fields isEmpty_def getStart_def getEnd_def)


end
